theory Spec2Isabelle
  imports Complex_Main "HOL-Library.Word"
begin

section \<open>Errors raised by the modelled functions\<close>

text \<open>
  The C++ sources signal failure by throwing. Each exception class that the modelled
  functions throw is one constructor; a function that may throw returns
  \<open>error + 'a\<close> with \<open>Inl\<close> carrying the exception. \<open>Assertion_failure\<close> stands for a
  failed \<^verbatim>\<open>assert\<close>, and \<open>Out_of_bounds\<close> for an access outside a vector or an
  array, which the sources do not check (undefined behaviour in C++).
  \<open>Singular_divisor\<close> is the error kind of section 7 of the spec for a division whose
  divisor has a zero leading coefficient, \<open>Singular_pow\<close> the one for a power whose base
  and exponent give no value, and \<open>Unsupported\<close> marks an input outside the part of the
  Taylor machinery and of the named functions that is modelled here.
\<close>

datatype error =
    Invalid_argument | Overflow_error | Assertion_failure | Out_of_bounds
  | Singular_divisor | Singular_pow | Unsupported

section \<open>Pairwise summation (benchmark/mascon\_model\_itokawa.cpp, lines 40--67)\<close>

text \<open>
  \<^verbatim>\<open>std::numeric_limits<std::vector<double>::size_type>::max()\<close> on an LP64 target.
\<close>

definition size_t_max :: nat where
  "size_t_max = 2 ^ 64 - 1"

text \<open>
  One pass of the inner \<^verbatim>\<open>for (i = 0; i < sum.size(); i += 2u)\<close> loop: two adjacent
  elements are added and pushed to \<^verbatim>\<open>new_sum\<close>; when \<^verbatim>\<open>i + 1u == sum.size()\<close> the
  last element is pushed as it is. The element type is kept polymorphic: the
  repository has the same loop for \<^verbatim>\<open>double\<close>, for expressions and for LLVM values.
\<close>

fun pairwise_round :: "'a::plus list \<Rightarrow> 'a list" where
  "pairwise_round [] = []"
| "pairwise_round [x] = [x]"
| "pairwise_round (x # y # zs) = (x + y) # pairwise_round zs"

lemma length_pairwise_round: "length (pairwise_round xs) = (length xs + 1) div 2"
  by (induction xs rule: pairwise_round.induct) simp_all

lemma pairwise_round_shorter:
  "length xs \<noteq> 1 \<Longrightarrow> xs \<noteq> [] \<Longrightarrow> length (pairwise_round xs) < length xs"
  by (cases xs rule: pairwise_round.cases) (simp_all add: length_pairwise_round)

text \<open>
  The outer \<^verbatim>\<open>while (sum.size() != 1u)\<close> loop. The source only enters it with a
  non-empty vector (the empty one has returned before), and on the empty vector the
  loop would not change anything; the model stops there so that the function is total.
\<close>

function pairwise_while :: "'a::plus list \<Rightarrow> 'a list" where
  "pairwise_while xs =
     (if length xs \<noteq> 1 \<and> xs \<noteq> [] then pairwise_while (pairwise_round xs) else xs)"
  by pat_completeness auto
termination
  by (relation "measure length") (simp_all add: pairwise_round_shorter)

declare pairwise_while.simps [simp del]

text \<open>
  \<^verbatim>\<open>double pairwise_sum(std::vector<double> sum)\<close>: the size check, the empty case, the
  loop, and \<^verbatim>\<open>return sum[0]\<close>.
\<close>

definition pairwise_sum :: "'a::{plus,zero} list \<Rightarrow> error + 'a" where
  "pairwise_sum xs =
     (if length xs = size_t_max then Inl Overflow_error
      else if xs = [] then Inr 0
      else Inr (hd (pairwise_while xs)))"

section \<open>The mascon right-hand side (benchmark/mascon\_model\_itokawa.cpp, lines 70--119)\<close>

text \<open>
  The functor \<^verbatim>\<open>mascon_dynamics\<close> handed to the odeint steppers. Doubles are modelled
  as reals (exact arithmetic), \<^verbatim>\<open>std::pow(r2, -3. / 2.)\<close> as \<open>r2 powr (- 3 / 2)\<close>; for
  \<open>r2 \<le> 0\<close> the double result is an infinity or a NaN, which the real-valued model
  does not represent, so the theorems below are stated where \<open>r2\<close> is positive.
\<close>

record mascon_dynamics =
  m_mascon_points :: "real list list"
  m_mascon_masses :: "real list"
  m_p :: real
  m_q :: real
  m_r :: real
  m_G :: real

text \<open>\<open>pts[i][0]\<close>, \<open>pts[i][1]\<close> and \<open>pts[i][2]\<close> can be read.\<close>

definition has_point :: "real list list \<Rightarrow> nat \<Rightarrow> bool" where
  "has_point pts i = (i < length pts \<and> 3 \<le> length (pts ! i))"

text \<open>
  The constructor (lines 77--85): the masses are copied, and for every mass the three
  coordinates of the point of the same index are copied into \<^verbatim>\<open>m_mascon_points\<close>.
\<close>

definition mascon_dynamics_ctor ::
  "real list list \<Rightarrow> real list \<Rightarrow> real \<Rightarrow> real \<Rightarrow> real \<Rightarrow> real \<Rightarrow> error + mascon_dynamics" where
  "mascon_dynamics_ctor mascon_points mascon_masses p q r G =
     (if list_all (has_point mascon_points) [0..<length mascon_masses]
      then Inr \<lparr>m_mascon_points =
                  map (\<lambda>i. [mascon_points ! i ! 0, mascon_points ! i ! 1, mascon_points ! i ! 2])
                    [0..<length mascon_masses],
                m_mascon_masses = mascon_masses, m_p = p, m_q = q, m_r = r, m_G = G\<rparr>
      else Inl Out_of_bounds)"

text \<open>
  The squared distance \<^verbatim>\<open>r2\<close> of lines 94--96. The file-scope array
  \<^verbatim>\<open>mascon_points_itokawa\<close> of \<^verbatim>\<open>data/mascon_itokawa.hpp\<close> (not among the sources) is
  a parameter of the model; the source reads it in the first factor of the third
  product and reads \<^verbatim>\<open>m_mascon_points\<close> everywhere else.
\<close>

definition mascon_r2 :: "real list list \<Rightarrow> mascon_dynamics \<Rightarrow> real list \<Rightarrow> nat \<Rightarrow> real" where
  "mascon_r2 mascon_points_itokawa d x i =
     (x ! 0 - m_mascon_points d ! i ! 0) * (x ! 0 - m_mascon_points d ! i ! 0)
     + (x ! 1 - m_mascon_points d ! i ! 1) * (x ! 1 - m_mascon_points d ! i ! 1)
     + (x ! 2 - mascon_points_itokawa ! i ! 2) * (x ! 2 - m_mascon_points d ! i ! 2)"

text \<open>The three values pushed to \<^verbatim>\<open>x_acc\<close>, \<^verbatim>\<open>y_acc\<close>, \<^verbatim>\<open>z_acc\<close> for one mascon (lines 97--100).\<close>

definition mascon_term :: "real list list \<Rightarrow> mascon_dynamics \<Rightarrow> real list \<Rightarrow> nat \<Rightarrow> real \<times> real \<times> real" where
  "mascon_term mascon_points_itokawa d x i =
     (let r2 = mascon_r2 mascon_points_itokawa d x i;
          mGpow = m_G d * (r2 powr (- 3 / 2)) * m_mascon_masses d ! i
      in ((m_mascon_points d ! i ! 0 - x ! 0) * mGpow,
          (m_mascon_points d ! i ! 1 - x ! 1) * mGpow,
          (m_mascon_points d ! i ! 2 - x ! 2) * mGpow))"

text \<open>
  \<^verbatim>\<open>operator()(x, dxdt, t)\<close>: the result is the vector \<^verbatim>\<open>dxdt\<close> after the call. An
  exception of \<^verbatim>\<open>pairwise_sum\<close> leaves the function before the last three
  components are written; the model then returns the exception only.
\<close>

definition mascon_call ::
  "real list list \<Rightarrow> mascon_dynamics \<Rightarrow> real list \<Rightarrow> real list \<Rightarrow> error + real list" where
  "mascon_call mascon_points_itokawa d x dxdt =
     (let dim = length (m_mascon_masses d) in
      if 6 \<le> length x \<and> 6 \<le> length dxdt
         \<and> list_all (has_point (m_mascon_points d)) [0..<dim]
         \<and> list_all (has_point mascon_points_itokawa) [0..<dim]
      then
        let terms = map (mascon_term mascon_points_itokawa d x) [0..<dim];
            x_acc = map fst terms;
            y_acc = map (\<lambda>t. fst (snd t)) terms;
            z_acc = map (\<lambda>t. snd (snd t)) terms;
            centripetal_x = - m_q d * m_q d * x ! 0 - m_r d * m_r d * x ! 0
                            + m_q d * x ! 1 * m_p d + m_r d * x ! 2 * m_p d;
            centripetal_y = - m_p d * m_p d * x ! 1 - m_r d * m_r d * x ! 1
                            + m_p d * x ! 0 * m_q d + m_r d * x ! 2 * m_q d;
            centripetal_z = - m_p d * m_p d * x ! 2 - m_q d * m_q d * x ! 2
                            + m_p d * x ! 0 * m_r d + m_q d * x ! 1 * m_r d;
            coriolis_x = 2 * (m_q d * x ! 5 - m_r d * x ! 4);
            coriolis_y = 2 * (m_r d * x ! 3 - m_p d * x ! 5);
            coriolis_z = 2 * (m_p d * x ! 4 - m_q d * x ! 3)
        in case pairwise_sum x_acc of Inl e \<Rightarrow> Inl e | Inr sx \<Rightarrow>
           (case pairwise_sum y_acc of Inl e \<Rightarrow> Inl e | Inr sy \<Rightarrow>
           (case pairwise_sum z_acc of Inl e \<Rightarrow> Inl e | Inr sz \<Rightarrow>
              Inr (dxdt[0 := x ! 3, 1 := x ! 4, 2 := x ! 5,
                        3 := sx - centripetal_x - coriolis_x,
                        4 := sy - centripetal_y - coriolis_y,
                        5 := sz - centripetal_z - coriolis_z])))
      else Inl Out_of_bounds)"

section \<open>Expressions\<close>

text \<open>
  Modelled from the spec: the expression type and its operators live in
  \<^verbatim>\<open>heyoka/expression.hpp\<close>, \<^verbatim>\<open>heyoka/math.hpp\<close> and \<^verbatim>\<open>heyoka/number.hpp\<close>, which are not
  among the sources. Section 3 of the spec gives the shapes: a number, a variable, an
  indexed parameter reference, a binary operator with tag add, sub, mul or div, and a
  named function with its arguments. Numbers (\<^verbatim>\<open>number\<close>, a floating constant of the
  working precision) are modelled as reals.
\<close>

datatype binop = Add | Sub | Mul | Div

datatype expression =
    Num real
  | Var string
  | Par nat
  | Bin binop expression expression
  | Func string "expression list"

text \<open>
  Modelled from the spec: section 4.1 has expressions built through constructors that
  fold literals (constant \<open>\<plusminus>\<close> constant) and reduce \<open>x + 0\<close> to \<open>x\<close> and \<open>x * 1\<close> to \<open>x\<close>,
  and nothing beyond that. \<open>e_add\<close>, \<open>e_sub\<close>, \<open>e_mul\<close> and \<open>e_div\<close> are the operators
  \<^verbatim>\<open>+\<close>, \<^verbatim>\<open>-\<close>, \<^verbatim>\<open>*\<close> and \<^verbatim>\<open>/\<close> on expressions.
\<close>

fun e_add :: "expression \<Rightarrow> expression \<Rightarrow> expression" where
  "e_add (Num a) (Num b) = Num (a + b)"
| "e_add x (Num b) = (if b = 0 then x else Bin Add x (Num b))"
| "e_add x y = Bin Add x y"

fun e_sub :: "expression \<Rightarrow> expression \<Rightarrow> expression" where
  "e_sub (Num a) (Num b) = Num (a - b)"
| "e_sub x y = Bin Sub x y"

fun e_mul :: "expression \<Rightarrow> expression \<Rightarrow> expression" where
  "e_mul x (Num b) = (if b = 1 then x else Bin Mul x (Num b))"
| "e_mul x y = Bin Mul x y"

definition e_div :: "expression \<Rightarrow> expression \<Rightarrow> expression" where
  "e_div x y = Bin Div x y"

text \<open>
  Modelled from the spec: the data model has no unary minus, so the unary \<^verbatim>\<open>-e\<close> is the
  product of the constant \<open>-1\<close> and \<open>e\<close>.
\<close>

definition e_neg :: "expression \<Rightarrow> expression" where
  "e_neg x = e_mul (Num (- 1)) x"

text \<open>
  Modelled from the spec: \<^verbatim>\<open>pow\<close> is one of the named functions of section 2;
  \<^verbatim>\<open>square\<close> is declared in \<^verbatim>\<open>include/heyoka/square.hpp\<close> as a function from an
  expression to an expression.
\<close>

definition pow :: "expression \<Rightarrow> expression \<Rightarrow> expression" where
  "pow b e = Func ''pow'' [b, e]"

definition square :: "expression \<Rightarrow> expression" where
  "square x = Func ''square'' [x]"

text \<open>
  \<open>pairwise_sum\<close> on a vector of expressions adds with the operator \<^verbatim>\<open>+\<close> above and
  returns the constant \<open>0\<close> for the empty vector.
\<close>

instantiation expression :: "{plus,zero}"
begin
definition plus_expression :: "expression \<Rightarrow> expression \<Rightarrow> expression" where
  "plus_expression = e_add"
definition zero_expression :: "expression" where
  "zero_expression = Num 0"
instance ..
end

section \<open>Variable names\<close>

text \<open>
  Modelled from the spec: \<^verbatim>\<open>li_to_string\<close> (\<^verbatim>\<open>heyoka/detail/string_conv.hpp\<close>, not among
  the sources) prints an unsigned integer in base ten.
\<close>

definition digit_char :: "nat \<Rightarrow> char" where
  "digit_char d = ''0123456789'' ! d"

function li_to_string :: "nat \<Rightarrow> string" where
  "li_to_string n =
     (if n < 10 then [digit_char n] else li_to_string (n div 10) @ [digit_char (n mod 10)])"
  by pat_completeness auto
termination
  by (relation "measure id") simp_all

declare li_to_string.simps [simp del]

section \<open>N-body systems (src/nbody.cpp, lines 40--333)\<close>

text \<open>An equation \<^verbatim>\<open>prime(x) = rhs\<close> is the pair of its two sides.\<close>

type_synonym equation = "expression \<times> expression"

definition prime_eq :: "expression \<Rightarrow> expression \<Rightarrow> equation" where
  "prime_eq lhs rhs = (lhs, rhs)"

text \<open>\<^verbatim>\<open>is_zero\<close> on a \<^verbatim>\<open>number\<close>.\<close>

definition is_zero :: "real \<Rightarrow> bool" where
  "is_zero m = (m = 0)"

text \<open>
  The six vectors of state variables filled by the first loop (lines 54--66 and
  240--252): \<^verbatim>\<open>x_vars[i]\<close> is the variable named \<^verbatim>\<open>"x_" + li_to_string(i)\<close>, and so on.
\<close>

definition x_vars :: "nat \<Rightarrow> expression list" where
  "x_vars n = map (\<lambda>i. Var (''x_'' @ li_to_string i)) [0..<n]"

definition y_vars :: "nat \<Rightarrow> expression list" where
  "y_vars n = map (\<lambda>i. Var (''y_'' @ li_to_string i)) [0..<n]"

definition z_vars :: "nat \<Rightarrow> expression list" where
  "z_vars n = map (\<lambda>i. Var (''z_'' @ li_to_string i)) [0..<n]"

definition vx_vars :: "nat \<Rightarrow> expression list" where
  "vx_vars n = map (\<lambda>i. Var (''vx_'' @ li_to_string i)) [0..<n]"

definition vy_vars :: "nat \<Rightarrow> expression list" where
  "vy_vars n = map (\<lambda>i. Var (''vy_'' @ li_to_string i)) [0..<n]"

definition vz_vars :: "nat \<Rightarrow> expression list" where
  "vz_vars n = map (\<lambda>i. Var (''vz_'' @ li_to_string i)) [0..<n]"

text \<open>
  The accumulators \<^verbatim>\<open>x_acc\<close>, \<^verbatim>\<open>y_acc\<close>, \<^verbatim>\<open>z_acc\<close>: one list of terms for each body.
  The state of the loops that build the system is the vector \<^verbatim>\<open>retval\<close> together with
  the three accumulators.
\<close>

type_synonym acc = "expression list list"

type_synonym accs = "acc \<times> acc \<times> acc"

type_synonym sys_state = "equation list \<times> accs"

text \<open>\<^verbatim>\<open>acc[k].push_back(e)\<close>.\<close>

definition push_back :: "nat \<Rightarrow> expression \<Rightarrow> acc \<Rightarrow> acc" where
  "push_back k e a = a[k := a ! k @ [e]]"

text \<open>
  A counting loop whose body may throw: the first exception ends the loop and is the
  result.
\<close>

fun for_each :: "('i \<Rightarrow> 's \<Rightarrow> error + 's) \<Rightarrow> 'i list \<Rightarrow> 's \<Rightarrow> error + 's" where
  "for_each body [] s = Inr s"
| "for_each body (i # is) s =
     (case body i s of Inl e \<Rightarrow> Inl e | Inr s' \<Rightarrow> for_each body is s')"

text \<open>
  The three statements \<^verbatim>\<open>retval.push_back(prime(x_vars[i]) = vx_vars[i])\<close>, and the same
  for \<^verbatim>\<open>y\<close> and \<^verbatim>\<open>z\<close>.
\<close>

definition push_position_eqs :: "nat \<Rightarrow> nat \<Rightarrow> equation list \<Rightarrow> equation list" where
  "push_position_eqs n i retval =
     retval @ [prime_eq (x_vars n ! i) (vx_vars n ! i),
               prime_eq (y_vars n ! i) (vy_vars n ! i),
               prime_eq (z_vars n ! i) (vz_vars n ! i)]"

text \<open>
  The three statements \<^verbatim>\<open>retval.push_back(prime(vx_vars[i]) = pairwise_sum(x_acc[i]))\<close>,
  and the same for \<^verbatim>\<open>y\<close> and \<^verbatim>\<open>z\<close>, in this order; \<^verbatim>\<open>pairwise_sum\<close> may throw.
\<close>

definition push_acceleration_eqs :: "nat \<Rightarrow> nat \<Rightarrow> accs \<Rightarrow> equation list \<Rightarrow> error + equation list" where
  "push_acceleration_eqs n i = (\<lambda>(x_acc, y_acc, z_acc) retval.
     case pairwise_sum (x_acc ! i) of Inl e \<Rightarrow> Inl e | Inr sx \<Rightarrow>
     (case pairwise_sum (y_acc ! i) of Inl e \<Rightarrow> Inl e | Inr sy \<Rightarrow>
     (case pairwise_sum (z_acc ! i) of Inl e \<Rightarrow> Inl e | Inr sz \<Rightarrow>
        Inr (retval @ [prime_eq (vx_vars n ! i) sx,
                       prime_eq (vy_vars n ! i) sy,
                       prime_eq (vz_vars n ! i) sz]))))"

text \<open>
  The body of the loop over the massless particles (lines 162--170 and 322--330).
\<close>

definition massless_body :: "nat \<Rightarrow> nat \<Rightarrow> sys_state \<Rightarrow> error + sys_state" where
  "massless_body n i = (\<lambda>(retval, a).
     case push_acceleration_eqs n i a (push_position_eqs n i retval) of
       Inl e \<Rightarrow> Inl e
     | Inr retval' \<Rightarrow> Inr (retval', a))"

text \<open>
  \<^verbatim>\<open>make_nbody_sys_fixed_masses\<close>, restricted case: the body of the inner loop over
  \<open>j\<close> (lines 118--151).
\<close>

definition fixed_restricted_pair ::
  "nat \<Rightarrow> real \<Rightarrow> real list \<Rightarrow> nat \<Rightarrow> nat \<Rightarrow> nat \<Rightarrow> accs \<Rightarrow> accs" where
  "fixed_restricted_pair n Gconst masses n_fc_massive i j = (\<lambda>(x_acc, y_acc, z_acc).
     let diff_x = e_sub (x_vars n ! j) (x_vars n ! i);
         diff_y = e_sub (y_vars n ! j) (y_vars n ! i);
         diff_z = e_sub (z_vars n ! j) (z_vars n ! i);
         r_m3 = pow (square diff_x + square diff_y + square diff_z) (Num (- 3 / 2))
     in if j < n_fc_massive then
          let fac_j = e_mul (Num (Gconst * masses ! j)) r_m3;
              c_ij = Num (- (masses ! i) / (masses ! j))
          in (push_back j (e_mul (e_mul diff_x fac_j) c_ij) (push_back i (e_mul diff_x fac_j) x_acc),
              push_back j (e_mul (e_mul diff_y fac_j) c_ij) (push_back i (e_mul diff_y fac_j) y_acc),
              push_back j (e_mul (e_mul diff_z fac_j) c_ij) (push_back i (e_mul diff_z fac_j) z_acc))
        else
          let fac = e_mul (Num (- Gconst * masses ! i)) r_m3
          in (push_back j (e_mul diff_x fac) x_acc,
              push_back j (e_mul diff_y fac) y_acc,
              push_back j (e_mul diff_z fac) z_acc))"

text \<open>
  \<^verbatim>\<open>make_nbody_sys_fixed_masses\<close>, general case: the body of the inner loop over \<open>j\<close>
  (lines 183--215).
\<close>

definition fixed_general_pair ::
  "nat \<Rightarrow> real \<Rightarrow> real list \<Rightarrow> nat \<Rightarrow> nat \<Rightarrow> accs \<Rightarrow> accs" where
  "fixed_general_pair n Gconst masses i j = (\<lambda>(x_acc, y_acc, z_acc).
     let diff_x = e_sub (x_vars n ! j) (x_vars n ! i);
         diff_y = e_sub (y_vars n ! j) (y_vars n ! i);
         diff_z = e_sub (z_vars n ! j) (z_vars n ! i);
         r_m3 = pow (square diff_x + square diff_y + square diff_z) (Num (- 3 / 2))
     in if is_zero (masses ! j) then
          let fac = e_mul (Num (- Gconst * masses ! i)) r_m3
          in (push_back j (e_mul diff_x fac) x_acc,
              push_back j (e_mul diff_y fac) y_acc,
              push_back j (e_mul diff_z fac) z_acc)
        else
          let fac_j = e_mul (Num (Gconst * masses ! j)) r_m3;
              c_ij = Num (- (masses ! i) / (masses ! j))
          in (push_back j (e_mul (e_mul diff_x fac_j) c_ij) (push_back i (e_mul diff_x fac_j) x_acc),
              push_back j (e_mul (e_mul diff_y fac_j) c_ij) (push_back i (e_mul diff_y fac_j) y_acc),
              push_back j (e_mul (e_mul diff_z fac_j) c_ij) (push_back i (e_mul diff_z fac_j) z_acc)))"

text \<open>The body of the outer loop over the massive particles (lines 107--157).\<close>

definition fixed_restricted_body ::
  "nat \<Rightarrow> real \<Rightarrow> real list \<Rightarrow> nat \<Rightarrow> nat \<Rightarrow> sys_state \<Rightarrow> error + sys_state" where
  "fixed_restricted_body n Gconst masses n_fc_massive i = (\<lambda>(retval, a).
     let retval1 = push_position_eqs n i retval;
         a' = fold (fixed_restricted_pair n Gconst masses n_fc_massive i) [i + 1..<n] a
     in case push_acceleration_eqs n i a' retval1 of
          Inl e \<Rightarrow> Inl e
        | Inr retval2 \<Rightarrow> Inr (retval2, a'))"

text \<open>The body of the outer loop of the general case (lines 172--221).\<close>

definition fixed_general_body ::
  "nat \<Rightarrow> real \<Rightarrow> real list \<Rightarrow> nat \<Rightarrow> sys_state \<Rightarrow> error + sys_state" where
  "fixed_general_body n Gconst masses i = (\<lambda>(retval, a).
     let retval1 = push_position_eqs n i retval;
         a' = fold (fixed_general_pair n Gconst masses i) [i + 1..<n] a
     in case push_acceleration_eqs n i a' retval1 of
          Inl e \<Rightarrow> Inl e
        | Inr retval2 \<Rightarrow> Inr (retval2, a'))"

text \<open>
  \<^verbatim>\<open>make_nbody_sys_fixed_masses(n, Gconst, masses)\<close>. The number of bodies is a
  \<^verbatim>\<open>std::uint32_t\<close>; the loop counters never exceed it, so they are natural numbers
  here. The two \<^verbatim>\<open>while\<close> loops over the iterator \<^verbatim>\<open>it\<close> count the leading non-zero
  masses and the zero masses that follow them.
\<close>

definition make_nbody_sys_fixed_masses ::
  "32 word \<Rightarrow> real \<Rightarrow> real list \<Rightarrow> error + equation list" where
  "make_nbody_sys_fixed_masses n32 Gconst masses =
     (let n = unat n32 in
      if n < 2 then Inl Assertion_failure
      else if length masses \<noteq> n then Inl Invalid_argument
      else
        let a0 = (replicate n [], replicate n [], replicate n []);
            n_fc_massive = length (takeWhile (\<lambda>m. \<not> is_zero m) masses);
            n_fc_massless = length (takeWhile is_zero (dropWhile (\<lambda>m. \<not> is_zero m) masses))
        in if n < n_fc_massive + n_fc_massless then Inl Assertion_failure
           else if n_fc_massless \<noteq> 0 \<and> n_fc_massive + n_fc_massless = n then
             (case for_each (fixed_restricted_body n Gconst masses n_fc_massive)
                     [0..<n_fc_massive] ([], a0) of
                Inl e \<Rightarrow> Inl e
              | Inr s \<Rightarrow>
                  (case for_each (massless_body n) [n_fc_massive..<n] s of
                     Inl e \<Rightarrow> Inl e
                   | Inr (retval, a) \<Rightarrow> Inr retval))
           else
             (case for_each (fixed_general_body n Gconst masses) [0..<n] ([], a0) of
                Inl e \<Rightarrow> Inl e
              | Inr (retval, a) \<Rightarrow> Inr retval))"

text \<open>
  \<^verbatim>\<open>make_nbody_sys_par_masses\<close>: the body of the inner loop over \<open>j\<close> (lines 278--311).
  \<^verbatim>\<open>par[j]\<close> is the parameter reference \<open>Par j\<close>.
\<close>

definition par_pair :: "nat \<Rightarrow> real \<Rightarrow> nat \<Rightarrow> nat \<Rightarrow> nat \<Rightarrow> accs \<Rightarrow> accs" where
  "par_pair n Gconst n_massive i j = (\<lambda>(x_acc, y_acc, z_acc).
     let diff_x = e_sub (x_vars n ! j) (x_vars n ! i);
         diff_y = e_sub (y_vars n ! j) (y_vars n ! i);
         diff_z = e_sub (z_vars n ! j) (z_vars n ! i);
         r_m3 = pow (square diff_x + square diff_y + square diff_z) (Num (- 3 / 2))
     in if j < n_massive then
          let fac_j = e_mul (e_mul (Num Gconst) (Par j)) r_m3;
              c_ij = e_div (e_neg (Par i)) (Par j)
          in (push_back j (e_mul (e_mul diff_x fac_j) c_ij) (push_back i (e_mul diff_x fac_j) x_acc),
              push_back j (e_mul (e_mul diff_y fac_j) c_ij) (push_back i (e_mul diff_y fac_j) y_acc),
              push_back j (e_mul (e_mul diff_z fac_j) c_ij) (push_back i (e_mul diff_z fac_j) z_acc))
        else
          let fac = e_mul (e_mul (Num (- Gconst)) (Par i)) r_m3
          in (push_back j (e_mul diff_x fac) x_acc,
              push_back j (e_mul diff_y fac) y_acc,
              push_back j (e_mul diff_z fac) z_acc))"

text \<open>The body of the outer loop over the massive particles (lines 267--317).\<close>

definition par_body :: "nat \<Rightarrow> real \<Rightarrow> nat \<Rightarrow> nat \<Rightarrow> sys_state \<Rightarrow> error + sys_state" where
  "par_body n Gconst n_massive i = (\<lambda>(retval, a).
     let retval1 = push_position_eqs n i retval;
         a' = fold (par_pair n Gconst n_massive i) [i + 1..<n] a
     in case push_acceleration_eqs n i a' retval1 of
          Inl e \<Rightarrow> Inl e
        | Inr retval2 \<Rightarrow> Inr (retval2, a'))"

text \<open>\<^verbatim>\<open>make_nbody_sys_par_masses(n, Gconst, n_massive)\<close>.\<close>

definition make_nbody_sys_par_masses ::
  "32 word \<Rightarrow> real \<Rightarrow> 32 word \<Rightarrow> error + equation list" where
  "make_nbody_sys_par_masses n32 Gconst n_massive32 =
     (let n = unat n32; n_massive = unat n_massive32 in
      if n < 2 then Inl Assertion_failure
      else if n < n_massive then Inl Invalid_argument
      else
        let a0 = (replicate n [], replicate n [], replicate n [])
        in case for_each (par_body n Gconst n_massive) [0..<n_massive] ([], a0) of
             Inl e \<Rightarrow> Inl e
           | Inr s \<Rightarrow>
               (case for_each (massless_body n) [n_massive..<n] s of
                  Inl e \<Rightarrow> Inl e
                | Inr (retval, a) \<Rightarrow> Inr retval))"

section \<open>Random elliptic states (src/nbody.cpp, lines 349--464)\<close>

text \<open>
  The values of type \<^verbatim>\<open>double\<close> that the validation distinguishes: finite values,
  the two infinities and NaN. \<open>DBL_MAX\<close> is \<^verbatim>\<open>std::numeric_limits<double>::max()\<close> of
  IEEE 754 binary64, and \<open>pi_double\<close> is \<^verbatim>\<open>boost::math::constants::pi<double>()\<close>, the
  double nearest to \<open>\<pi>\<close>.
\<close>

datatype dbl = Finite real | PInf | NInf | NaN

definition DBL_MAX :: real where
  "DBL_MAX = 2 ^ 1024 - 2 ^ 971"

definition pi_double :: real where
  "pi_double = 884279719003555 / 2 ^ 48"

fun isfinite :: "dbl \<Rightarrow> bool" where
  "isfinite (Finite r) = True"
| "isfinite d = False"

text \<open>The comparisons \<^verbatim>\<open><\<close> and \<^verbatim>\<open><=\<close> on doubles; every comparison with a NaN is false.\<close>

fun d_less :: "dbl \<Rightarrow> dbl \<Rightarrow> bool" where
  "d_less (Finite a) (Finite b) = (a < b)"
| "d_less (Finite a) PInf = True"
| "d_less NInf (Finite b) = True"
| "d_less NInf PInf = True"
| "d_less a b = False"

fun d_le :: "dbl \<Rightarrow> dbl \<Rightarrow> bool" where
  "d_le (Finite a) (Finite b) = (a \<le> b)"
| "d_le (Finite a) PInf = True"
| "d_le NInf (Finite b) = True"
| "d_le NInf PInf = True"
| "d_le PInf PInf = True"
| "d_le NInf NInf = True"
| "d_le a b = False"

text \<open>
  The subtraction of doubles, rounding to nearest: an exact difference of magnitude
  at least \<open>2 ^ 1024 - 2 ^ 970\<close> becomes an infinity, a smaller one a finite double of
  magnitude at most \<open>DBL_MAX\<close>. The function below only compares differences with
  \<open>DBL_MAX\<close>, so the rounding of the other finite results is left out.
\<close>

definition overflow_threshold :: real where
  "overflow_threshold = 2 ^ 1024 - 2 ^ 970"

definition round_to_range :: "real \<Rightarrow> dbl" where
  "round_to_range r =
     (if overflow_threshold \<le> r then PInf
      else if r \<le> - overflow_threshold then NInf
      else Finite (max (- DBL_MAX) (min DBL_MAX r)))"

fun d_sub :: "dbl \<Rightarrow> dbl \<Rightarrow> dbl" where
  "d_sub (Finite a) (Finite b) = round_to_range (a - b)"
| "d_sub NaN b = NaN"
| "d_sub a NaN = NaN"
| "d_sub PInf PInf = NaN"
| "d_sub NInf NInf = NaN"
| "d_sub PInf b = PInf"
| "d_sub NInf b = NInf"
| "d_sub (Finite a) PInf = NInf"
| "d_sub (Finite a) NInf = PInf"

text \<open>The real value of a finite double.\<close>

fun value_of :: "dbl \<Rightarrow> real" where
  "value_of (Finite r) = r"
| "value_of d = 0"

text \<open>
  The test of the loop over \<^verbatim>\<open>bounds\<close> (lines 364--372), negated: both ends are finite
  and \<^verbatim>\<open>ub > lb\<close>.
\<close>

definition bound_ok :: "dbl \<times> dbl \<Rightarrow> bool" where
  "bound_ok b = (case b of (lb, ub) \<Rightarrow> isfinite lb \<and> isfinite ub \<and> d_less lb ub)"

text \<open>\<^verbatim>\<open>(ub - lb) > std::numeric_limits<double>::max()\<close>.\<close>

definition range_overflows :: "dbl \<times> dbl \<Rightarrow> bool" where
  "range_overflows b = (case b of (lb, ub) \<Rightarrow> d_less (Finite DBL_MAX) (d_sub ub lb))"

text \<open>
  The random number generator. \<^verbatim>\<open>std::mt19937\<close> and
  \<^verbatim>\<open>std::uniform_real_distribution\<close> belong to the C++ library, so the model takes them
  as parameters: \<open>rng_seed\<close> is the state of the generator after \<^verbatim>\<open>rng.seed(s)\<close>, and
  \<open>rng_draw g lb ub\<close> is the value drawn from the generator in state \<open>g\<close> by a
  distribution with parameters \<open>lb\<close> and \<open>ub\<close>, with the state of the generator after
  the draw.
\<close>

record 'g rng_ops =
  rng_seed :: "32 word \<Rightarrow> 'g"
  rng_draw :: "'g \<Rightarrow> real \<Rightarrow> real \<Rightarrow> real \<times> 'g"

text \<open>The 3d dot product helper (lines 339--343).\<close>

definition dot :: "real list \<Rightarrow> real list \<Rightarrow> real" where
  "dot a b = a ! 0 * b ! 0 + a ! 1 * b ! 1 + a ! 2 * b ! 2"

text \<open>
  The transformation of the orbital elements into a cartesian state (lines 433--463),
  in exact real arithmetic.
\<close>

definition elements_to_cartesian ::
  "real \<Rightarrow> real \<Rightarrow> real \<Rightarrow> real \<Rightarrow> real \<Rightarrow> real \<Rightarrow> real \<Rightarrow> real list" where
  "elements_to_cartesian mu a e inc om Om f =
     (let E = 2 * arctan (sqrt ((1 - e) / (1 + e)) * tan (f / 2));
          n = sqrt (mu / (a * a * a));
          q = [a * (cos E - e), a * sqrt (1 - e * e) * sin E, 0];
          vq = [- n * a * sin E / (1 - e * cos E),
                n * a * sqrt (1 - e * e) * cos E / (1 - e * cos E), 0];
          r1 = [cos Om * cos om - sin Om * cos inc * sin om,
                - cos Om * sin om - sin Om * cos inc * cos om, sin Om * sin inc];
          r2 = [sin Om * cos om + cos Om * cos inc * sin om,
                - sin Om * sin om + cos Om * cos inc * cos om, - cos Om * sin inc];
          r3 = [sin inc * sin om, sin inc * cos om, cos inc];
          x = [dot r1 q, dot r2 q, dot r3 q];
          v = [dot r1 vq, dot r2 vq, dot r3 vq]
      in [x ! 0, x ! 1, x ! 2, v ! 0, v ! 1, v ! 2])"

text \<open>
  \<^verbatim>\<open>random_elliptic_state(mu, bounds, seed)\<close>. The generator \<^verbatim>\<open>rng\<close> is a static
  thread-local object: its state before the call is an argument of the model and its
  state after the call is returned with the result. \<^verbatim>\<open>bounds\<close> is an array of six
  pairs.
\<close>

type_synonym bounds =
  "(dbl \<times> dbl) \<times> (dbl \<times> dbl) \<times> (dbl \<times> dbl) \<times> (dbl \<times> dbl) \<times> (dbl \<times> dbl) \<times> (dbl \<times> dbl)"

definition random_elliptic_state ::
  "'g rng_ops \<Rightarrow> dbl \<Rightarrow> bounds \<Rightarrow> 32 word \<Rightarrow> 'g \<Rightarrow> (error + real list) \<times> 'g" where
  "random_elliptic_state R mu bounds seed rng =
     (case bounds of (b_a, b_e, b_inc, b_om, b_Om, b_f) \<Rightarrow>
      if \<not> isfinite mu \<or> d_le mu (Finite 0) then (Inl Invalid_argument, rng)
      else if \<not> list_all bound_ok [b_a, b_e, b_inc, b_om, b_Om, b_f]
        then (Inl Invalid_argument, rng)
      else if d_le (fst b_a) (Finite 0) then (Inl Invalid_argument, rng)
      else if range_overflows b_a then (Inl Overflow_error, rng)
      else if d_le (fst b_e) (Finite 0) \<or> d_less (Finite 1) (snd b_e)
        then (Inl Invalid_argument, rng)
      else if d_le (fst b_inc) (Finite 0) \<or> d_less (Finite pi_double) (snd b_inc)
        then (Inl Invalid_argument, rng)
      else if range_overflows b_om then (Inl Overflow_error, rng)
      else if range_overflows b_Om then (Inl Overflow_error, rng)
      else if range_overflows b_f then (Inl Overflow_error, rng)
      else
        let g0 = rng_seed R seed;
            (a, g1) = rng_draw R g0 (value_of (fst b_a)) (value_of (snd b_a));
            (e, g2) = rng_draw R g1 (value_of (fst b_e)) (value_of (snd b_e));
            (inc, g3) = rng_draw R g2 (value_of (fst b_inc)) (value_of (snd b_inc));
            (om, g4) = rng_draw R g3 (value_of (fst b_om)) (value_of (snd b_om));
            (Om, g5) = rng_draw R g4 (value_of (fst b_Om)) (value_of (snd b_Om));
            (f, g6) = rng_draw R g5 (value_of (fst b_f)) (value_of (snd b_f))
        in (Inr (elements_to_cartesian (value_of mu) a e inc om Om f), g6))"

section \<open>Taylor decomposition and the jet function\<close>

text \<open>
  Modelled from the spec: \<^verbatim>\<open>llvm_state::add_taylor_jet_batch\<close>, the decomposition it
  builds and the function it compiles are not among the sources; only their tests
  (\<^verbatim>\<open>test/taylor_mul.cpp\<close>) are. Sections 3, 4.2, 4.3 and 4.4 of the spec describe them.
  An entry of a decomposition is a state identity, a three-address assignment whose
  operands are numeric constants, parameter indices or references to earlier entries
  (the state variables are the first entries), or a tail entry recording the derivative
  of a state variable as a reference to the top of its right-hand side. The
  recurrences of the named functions (\<^verbatim>\<open>pow\<close>, \<^verbatim>\<open>exp\<close>, ...) are left out of the model:
  an expression with a function call is refused with \<open>Unsupported\<close>.
\<close>

datatype operand = O_num real | O_par nat | O_ref nat

datatype entry = State_id | Assign binop operand operand | Deriv_of operand

text \<open>
  Modelled from the spec (section 4.2, step 3): the right-hand side of an assignment is
  normalised before it is looked up: for \<open>add\<close> and \<open>mul\<close> two references are put in the
  order of their indices.
\<close>

fun canonical :: "binop \<Rightarrow> operand \<Rightarrow> operand \<Rightarrow> entry" where
  "canonical Add (O_ref i) (O_ref j) = (if j < i then Assign Add (O_ref j) (O_ref i)
                                        else Assign Add (O_ref i) (O_ref j))"
| "canonical Mul (O_ref i) (O_ref j) = (if j < i then Assign Mul (O_ref j) (O_ref i)
                                        else Assign Mul (O_ref i) (O_ref j))"
| "canonical opr a b = Assign opr a b"

text \<open>The index of the first entry equal to \<open>e\<close>, if there is one.\<close>

fun find_entry :: "entry \<Rightarrow> entry list \<Rightarrow> nat option" where
  "find_entry e [] = None"
| "find_entry e (d # ds) =
     (if d = e then Some 0 else map_option Suc (find_entry e ds))"

text \<open>The index of a variable among the state variables.\<close>

fun var_index :: "string \<Rightarrow> string list \<Rightarrow> nat option" where
  "var_index v [] = None"
| "var_index v (w # ws) = (if w = v then Some 0 else map_option Suc (var_index v ws))"

text \<open>
  Modelled from the spec (section 4.2, steps 2 and 3): an expression is walked bottom-up;
  a leaf is emitted in place; a compound whose children have been rewritten to
  operands is looked up among the entries and appended when it is new. The result is
  the operand that stands for the expression, with the entries so far. A variable
  that is not a state variable breaks the input contract.
\<close>

fun decompose_expr ::
  "string list \<Rightarrow> expression \<Rightarrow> entry list \<Rightarrow> error + (operand \<times> entry list)" where
  "decompose_expr vs (Num c) D = Inr (O_num c, D)"
| "decompose_expr vs (Par i) D = Inr (O_par i, D)"
| "decompose_expr vs (Var v) D =
     (case var_index v vs of None \<Rightarrow> Inl Invalid_argument | Some i \<Rightarrow> Inr (O_ref i, D))"
| "decompose_expr vs (Bin opr l r) D =
     (case decompose_expr vs l D of Inl e \<Rightarrow> Inl e | Inr (a, D1) \<Rightarrow>
      (case decompose_expr vs r D1 of Inl e \<Rightarrow> Inl e | Inr (b, D2) \<Rightarrow>
       (case find_entry (canonical opr a b) D2 of
          Some j \<Rightarrow> Inr (O_ref j, D2)
        | None \<Rightarrow> Inr (O_ref (length D2), D2 @ [canonical opr a b]))))"
| "decompose_expr vs (Func f args) D = Inl Unsupported"

text \<open>The right-hand sides one after the other; the tops are collected in order.\<close>

fun decompose_rhs ::
  "string list \<Rightarrow> expression list \<Rightarrow> entry list \<Rightarrow> error + (operand list \<times> entry list)" where
  "decompose_rhs vs [] D = Inr ([], D)"
| "decompose_rhs vs (e # es) D =
     (case decompose_expr vs e D of Inl err \<Rightarrow> Inl err | Inr (a, D1) \<Rightarrow>
      (case decompose_rhs vs es D1 of Inl err \<Rightarrow> Inl err
       | Inr (tops, D2) \<Rightarrow> Inr (a # tops, D2)))"

text \<open>
  Modelled from the spec (section 4.2, steps 1 and 4): the state identities head the
  decomposition, the derivative entries tail it. The equations are pairs of a variable
  name and a right-hand side.
\<close>

definition taylor_decompose :: "(string \<times> expression) list \<Rightarrow> error + entry list" where
  "taylor_decompose eqs =
     (let vs = map fst eqs in
      case decompose_rhs vs (map snd eqs) (replicate (length eqs) State_id) of
        Inl err \<Rightarrow> Inl err
      | Inr (tops, D) \<Rightarrow> Inr (D @ map Deriv_of tops))"

text \<open>
  Modelled from the spec (section 4.4): the slab is a dense buffer of
  \<open>|D| * (p + 1)\<close> rows of \<open>B\<close> lanes, row-major; the row of entry \<open>r\<close> at order \<open>k\<close> is
  at row-offset \<open>k * |D|\<close>.
\<close>

definition cell :: "nat \<Rightarrow> nat \<Rightarrow> nat \<Rightarrow> nat \<Rightarrow> nat \<Rightarrow> nat" where
  "cell n B k r l = (k * n + r) * B + l"

text \<open>
  The coefficient of order \<open>k\<close> of an operand in lane \<open>l\<close>: a constant and a parameter
  have no coefficient beyond order \<open>0\<close>.
\<close>

fun operand_coeff :: "nat \<Rightarrow> nat \<Rightarrow> real list \<Rightarrow> real list \<Rightarrow> nat \<Rightarrow> nat \<Rightarrow> operand \<Rightarrow> real" where
  "operand_coeff n B pars slab k l (O_num c) = (if k = 0 then c else 0)"
| "operand_coeff n B pars slab k l (O_par i) = (if k = 0 then pars ! i else 0)"
| "operand_coeff n B pars slab k l (O_ref j) = slab ! cell n B k j l"

text \<open>
  Modelled from the spec (section 4.3): the recurrences of the four binary operators.
  For \<open>a = b / c\<close> the recurrence fails with \<open>Singular_divisor\<close> when \<open>c\<close> has a zero
  coefficient of order \<open>0\<close>. A tail entry holds the coefficient of its operand. The
  coefficient of order \<open>k \<ge> 1\<close> of a state variable is the coefficient of order \<open>k - 1\<close>
  of its derivative, which is the tail entry of the same position, divided by \<open>k\<close>.
\<close>

definition entry_coeff ::
  "entry list \<Rightarrow> nat \<Rightarrow> nat \<Rightarrow> real list \<Rightarrow> real list \<Rightarrow> nat \<Rightarrow> nat \<Rightarrow> nat \<Rightarrow> error + real" where
  "entry_coeff D S B pars slab k r l =
     (let n = length D; co = operand_coeff n B pars slab in
      case D ! r of
        State_id \<Rightarrow> Inr (slab ! cell n B (k - 1) (n - S + r) l / real k)
      | Deriv_of a \<Rightarrow> Inr (co k l a)
      | Assign Add b c \<Rightarrow> Inr (co k l b + co k l c)
      | Assign Sub b c \<Rightarrow> Inr (co k l b - co k l c)
      | Assign Mul b c \<Rightarrow> Inr (\<Sum>j\<leftarrow>[0..<Suc k]. co j l b * co (k - j) l c)
      | Assign Div b c \<Rightarrow>
          (if co 0 l c = 0 then Inl Singular_divisor
           else Inr ((co k l b - (\<Sum>j\<leftarrow>[0..<k]. slab ! cell n B j r l * co (k - j) l c))
                     / co 0 l c)))"

text \<open>Computing one cell of the slab and storing it.\<close>

definition jet_cell ::
  "entry list \<Rightarrow> nat \<Rightarrow> nat \<Rightarrow> real list \<Rightarrow> nat \<Rightarrow> nat \<Rightarrow> nat \<Rightarrow> real list \<Rightarrow> error + real list" where
  "jet_cell D S B pars k r l slab =
     (case entry_coeff D S B pars slab k r l of
        Inl e \<Rightarrow> Inl e
      | Inr v \<Rightarrow> Inr (slab[cell (length D) B k r l := v]))"

text \<open>
  Modelled from the spec (section 4.4): the function \<^verbatim>\<open>void jet(T* slab)\<close> for a
  decomposition \<open>D\<close> of a system of dimension \<open>S\<close>, order \<open>p\<close> and batch width \<open>B\<close>. The
  rows \<open>0 \<dots> S - 1\<close> of order \<open>0\<close> hold the caller's state; the other rows of order \<open>0\<close>,
  and then every row of the orders \<open>1 \<dots> p\<close>, are evaluated in order, lane by lane. A
  slab that is too short is an access out of bounds.
\<close>

definition jet_rows :: "entry list \<Rightarrow> nat \<Rightarrow> nat \<Rightarrow> nat list" where
  "jet_rows D S k = (if k = 0 then [S..<length D] else [0..<length D])"

definition jet :: "entry list \<Rightarrow> nat \<Rightarrow> real list \<Rightarrow> nat \<Rightarrow> nat \<Rightarrow> real list \<Rightarrow> error + real list" where
  "jet D S pars p B slab =
     (if length slab < length D * (p + 1) * B then Inl Out_of_bounds
      else for_each (\<lambda>k. for_each (\<lambda>r. for_each (jet_cell D S B pars k r) [0..<B])
                      (jet_rows D S k)) [0..<Suc p] slab)"

section \<open>The value of an expression\<close>






section \<open>The shape of the pairwise reduction\<close>

text \<open>
  The order in which the additions are made is read off by running the same function
  on symbolic operands: \<open>Leaf x\<close> is an operand, \<open>Node l r\<close> the addition \<open>l + r\<close>, and
  \<open>Zero\<close> the constant returned for the empty list.
\<close>

datatype 'a sum_tree = Zero | Leaf 'a | Node "'a sum_tree" "'a sum_tree"

instantiation sum_tree :: (type) "{plus,zero}"
begin
definition plus_sum_tree :: "'a sum_tree \<Rightarrow> 'a sum_tree \<Rightarrow> 'a sum_tree" where
  "plus_sum_tree l r = Node l r"
definition zero_sum_tree :: "'a sum_tree" where
  "zero_sum_tree = Zero"
instance ..
end

fun leaves :: "'a sum_tree \<Rightarrow> 'a list" where
  "leaves Zero = []"
| "leaves (Leaf x) = [x]"
| "leaves (Node l r) = leaves l @ leaves r"

fun height :: "'a sum_tree \<Rightarrow> nat" where
  "height Zero = 0"
| "height (Leaf x) = 0"
| "height (Node l r) = Suc (max (height l) (height r))"

text \<open>A perfect tree: every addition has two operands of the same height.\<close>

fun is_perfect :: "'a sum_tree \<Rightarrow> bool" where
  "is_perfect Zero = False"
| "is_perfect (Leaf x) = True"
| "is_perfect (Node l r) = (is_perfect l \<and> is_perfect r \<and> height l = height r)"

text \<open>
  A left-leaning pairwise tree: the left operand of every addition on the right spine
  is a perfect tree, and it is at least as high as the right operand.
\<close>

fun left_leaning :: "'a sum_tree \<Rightarrow> bool" where
  "left_leaning Zero = False"
| "left_leaning (Leaf x) = True"
| "left_leaning (Node l r) = (is_perfect l \<and> height r \<le> height l \<and> left_leaning r)"

text \<open>
  The loop invariant after \<open>k\<close> rounds: every element but the last is a perfect tree of
  height \<open>k\<close>, the last one is left-leaning and of height at most \<open>k\<close>.
\<close>

fun round_inv :: "nat \<Rightarrow> 'a sum_tree list \<Rightarrow> bool" where
  "round_inv k [] = False"
| "round_inv k [t] = (left_leaning t \<and> height t \<le> k)"
| "round_inv k (t # ts) = (is_perfect t \<and> height t = k \<and> round_inv k ts)"

section \<open>Notions used to state the properties of the N-body systems\<close>

text \<open>The variables, the parameter indices and the numeric constants of an expression.\<close>

fun vars_of :: "expression \<Rightarrow> string set" where
  "vars_of (Num a) = {}"
| "vars_of (Var v) = {v}"
| "vars_of (Par i) = {}"
| "vars_of (Bin opr l r) = vars_of l \<union> vars_of r"
| "vars_of (Func f args) = (\<Union>a \<in> set args. vars_of a)"



text \<open>Reading a decimal numeral back, to show that the names of the bodies differ.\<close>

definition string_to_nat :: "string \<Rightarrow> nat" where
  "string_to_nat s = foldl (\<lambda>a c. 10 * a + (of_char c - 48)) 0 s"

text \<open>
  One accumulator seen alone. All three inner loop bodies have the same form: for a
  mutually interacting pair a term is pushed to row \<open>i\<close> and another to row \<open>j\<close>,
  otherwise one term is pushed to row \<open>j\<close>.
\<close>

definition pair_step ::
  "(nat \<Rightarrow> bool) \<Rightarrow> (nat \<Rightarrow> nat \<Rightarrow> expression) \<Rightarrow> (nat \<Rightarrow> nat \<Rightarrow> expression) \<Rightarrow>
   (nat \<Rightarrow> nat \<Rightarrow> expression) \<Rightarrow> nat \<Rightarrow> nat \<Rightarrow> acc \<Rightarrow> acc" where
  "pair_step mutual on_i on_j single i j a =
     (if mutual j then push_back j (on_j i j) (push_back i (on_i i j) a)
      else push_back j (single i j) a)"

text \<open>The term that the outer iteration \<open>i\<close> pushes to the row of a later body \<open>k\<close>.\<close>

definition incoming ::
  "(nat \<Rightarrow> bool) \<Rightarrow> (nat \<Rightarrow> nat \<Rightarrow> expression) \<Rightarrow> (nat \<Rightarrow> nat \<Rightarrow> expression) \<Rightarrow>
   nat \<Rightarrow> nat \<Rightarrow> expression" where
  "incoming mutual on_j single i k = (if mutual k then on_j i k else single i k)"

text \<open>Row \<open>k\<close> of an accumulator after \<open>m\<close> iterations of the outer loop.\<close>

definition row_after ::
  "(nat \<Rightarrow> bool) \<Rightarrow> (nat \<Rightarrow> nat \<Rightarrow> expression) \<Rightarrow> (nat \<Rightarrow> nat \<Rightarrow> expression) \<Rightarrow>
   (nat \<Rightarrow> nat \<Rightarrow> expression) \<Rightarrow> nat \<Rightarrow> nat \<Rightarrow> nat \<Rightarrow> expression list" where
  "row_after mutual on_i on_j single n m k =
     (if k < m
      then map (\<lambda>i. incoming mutual on_j single i k) [0..<k]
           @ map (on_i k) (filter mutual [k + 1..<n])
      else map (\<lambda>i. incoming mutual on_j single i k) [0..<m])"

definition acc_inv ::
  "(nat \<Rightarrow> bool) \<Rightarrow> (nat \<Rightarrow> nat \<Rightarrow> expression) \<Rightarrow> (nat \<Rightarrow> nat \<Rightarrow> expression) \<Rightarrow>
   (nat \<Rightarrow> nat \<Rightarrow> expression) \<Rightarrow> nat \<Rightarrow> nat \<Rightarrow> acc \<Rightarrow> bool" where
  "acc_inv mutual on_i on_j single n m a =
     (length a = n \<and> (\<forall>k<n. a ! k = row_after mutual on_i on_j single n m k))"

text \<open>The three coordinates, and the terms of the accelerations written once for all of them.\<close>

datatype coord = X | Y | Z

fun pos_var :: "coord \<Rightarrow> nat \<Rightarrow> expression" where
  "pos_var X i = Var (''x_'' @ li_to_string i)"
| "pos_var Y i = Var (''y_'' @ li_to_string i)"
| "pos_var Z i = Var (''z_'' @ li_to_string i)"

fun vel_var :: "coord \<Rightarrow> nat \<Rightarrow> expression" where
  "vel_var X i = Var (''vx_'' @ li_to_string i)"
| "vel_var Y i = Var (''vy_'' @ li_to_string i)"
| "vel_var Z i = Var (''vz_'' @ li_to_string i)"

definition diff :: "coord \<Rightarrow> nat \<Rightarrow> nat \<Rightarrow> expression" where
  "diff c i j = e_sub (pos_var c j) (pos_var c i)"

definition r_m3 :: "nat \<Rightarrow> nat \<Rightarrow> expression" where
  "r_m3 i j = pow (square (diff X i j) + square (diff Y i j) + square (diff Z i j)) (Num (- 3 / 2))"

definition fixed_on_i :: "real \<Rightarrow> real list \<Rightarrow> coord \<Rightarrow> nat \<Rightarrow> nat \<Rightarrow> expression" where
  "fixed_on_i Gconst masses c i j = e_mul (diff c i j) (e_mul (Num (Gconst * masses ! j)) (r_m3 i j))"

definition fixed_on_j :: "real \<Rightarrow> real list \<Rightarrow> coord \<Rightarrow> nat \<Rightarrow> nat \<Rightarrow> expression" where
  "fixed_on_j Gconst masses c i j =
     e_mul (fixed_on_i Gconst masses c i j) (Num (- (masses ! i) / (masses ! j)))"

definition fixed_single :: "real \<Rightarrow> real list \<Rightarrow> coord \<Rightarrow> nat \<Rightarrow> nat \<Rightarrow> expression" where
  "fixed_single Gconst masses c i j =
     e_mul (diff c i j) (e_mul (Num (- Gconst * masses ! i)) (r_m3 i j))"

definition par_on_i :: "real \<Rightarrow> coord \<Rightarrow> nat \<Rightarrow> nat \<Rightarrow> expression" where
  "par_on_i Gconst c i j = e_mul (diff c i j) (e_mul (e_mul (Num Gconst) (Par j)) (r_m3 i j))"

definition par_on_j :: "real \<Rightarrow> coord \<Rightarrow> nat \<Rightarrow> nat \<Rightarrow> expression" where
  "par_on_j Gconst c i j = e_mul (par_on_i Gconst c i j) (e_div (e_neg (Par i)) (Par j))"

definition par_single :: "real \<Rightarrow> coord \<Rightarrow> nat \<Rightarrow> nat \<Rightarrow> expression" where
  "par_single Gconst c i j =
     e_mul (diff c i j) (e_mul (e_mul (Num (- Gconst)) (Par i)) (r_m3 i j))"

text \<open>The value of \<^verbatim>\<open>pairwise_sum\<close> on a list of expressions, when it does not throw.\<close>

definition psum :: "expression list \<Rightarrow> expression" where
  "psum es = (if es = [] then Num 0 else hd (pairwise_while es))"

text \<open>The six equations of body \<open>i\<close>, given the final rows of the accumulators.\<close>

definition body_equations :: "(coord \<Rightarrow> nat \<Rightarrow> expression list) \<Rightarrow> nat \<Rightarrow> equation list" where
  "body_equations rows i =
     [(pos_var X i, vel_var X i), (pos_var Y i, vel_var Y i), (pos_var Z i, vel_var Z i),
      (vel_var X i, psum (rows X i)), (vel_var Y i, psum (rows Y i)),
      (vel_var Z i, psum (rows Z i))]"

text \<open>The invariant of the outer loops after \<open>m\<close> bodies.\<close>

definition sys_inv ::
  "(nat \<Rightarrow> bool) \<Rightarrow> (coord \<Rightarrow> nat \<Rightarrow> nat \<Rightarrow> expression) \<Rightarrow> (coord \<Rightarrow> nat \<Rightarrow> nat \<Rightarrow> expression) \<Rightarrow>
   (coord \<Rightarrow> nat \<Rightarrow> nat \<Rightarrow> expression) \<Rightarrow> nat \<Rightarrow> nat \<Rightarrow> nat \<Rightarrow> sys_state \<Rightarrow> bool" where
  "sys_inv mu oi oj sg n nm m = (\<lambda>(retval, (ax, ay, az)).
     retval = concat (map (body_equations (\<lambda>c. row_after mu (oi c) (oj c) (sg c) n nm)) [0..<m])
     \<and> acc_inv mu (oi X) (oj X) (sg X) n (min m nm) ax
     \<and> acc_inv mu (oi Y) (oj Y) (sg Y) n (min m nm) ay
     \<and> acc_inv mu (oi Z) (oj Z) (sg Z) n (min m nm) az)"

definition massive_body_of ::
  "(nat \<Rightarrow> accs \<Rightarrow> accs) \<Rightarrow> nat \<Rightarrow> nat \<Rightarrow> sys_state \<Rightarrow> error + sys_state" where
  "massive_body_of f n i = (\<lambda>(retval, a).
     let retval1 = push_position_eqs n i retval;
         a' = fold f [i + 1..<n] a
     in case push_acceleration_eqs n i a' retval1 of
          Inl e \<Rightarrow> Inl e
        | Inr retval2 \<Rightarrow> Inr (retval2, a'))"

text \<open>The two counters of \<^verbatim>\<open>make_nbody_sys_fixed_masses\<close> and its test for the restricted case.\<close>

definition n_fc_massive :: "real list \<Rightarrow> nat" where
  "n_fc_massive masses = length (takeWhile (\<lambda>m. \<not> is_zero m) masses)"

definition n_fc_massless :: "real list \<Rightarrow> nat" where
  "n_fc_massless masses = length (takeWhile is_zero (dropWhile (\<lambda>m. \<not> is_zero m) masses))"

definition restricted :: "real list \<Rightarrow> bool" where
  "restricted masses =
     (n_fc_massless masses \<noteq> 0 \<and> n_fc_massive masses + n_fc_massless masses = length masses)"

text \<open>The final rows of the accumulators of the two functions.\<close>

definition par_rows :: "nat \<Rightarrow> real \<Rightarrow> nat \<Rightarrow> coord \<Rightarrow> nat \<Rightarrow> expression list" where
  "par_rows n Gconst n_massive c =
     row_after (\<lambda>j. j < n_massive) (par_on_i Gconst c) (par_on_j Gconst c) (par_single Gconst c)
       n n_massive"

definition fixed_rows :: "nat \<Rightarrow> real \<Rightarrow> real list \<Rightarrow> coord \<Rightarrow> nat \<Rightarrow> expression list" where
  "fixed_rows n Gconst masses c =
     (if restricted masses
      then row_after (\<lambda>j. j < n_fc_massive masses) (fixed_on_i Gconst masses c)
             (fixed_on_j Gconst masses c) (fixed_single Gconst masses c) n (n_fc_massive masses)
      else row_after (\<lambda>j. \<not> is_zero (masses ! j)) (fixed_on_i Gconst masses c)
             (fixed_on_j Gconst masses c) (fixed_single Gconst masses c) n n)"

text \<open>The names of the three position variables of body \<open>k\<close>.\<close>

definition pos_vars :: "nat \<Rightarrow> string set" where
  "pos_vars k = {''x_'' @ li_to_string k, ''y_'' @ li_to_string k, ''z_'' @ li_to_string k}"

fun coord_index :: "coord \<Rightarrow> nat" where
  "coord_index X = 0"
| "coord_index Y = 1"
| "coord_index Z = 2"



section \<open>Notions used to state the properties of random elliptic states\<close>

text \<open>A finite value of the model is a double only if its magnitude is at most \<open>DBL_MAX\<close>.\<close>

fun is_double :: "dbl \<Rightarrow> bool" where
  "is_double (Finite r) = (\<bar>r\<bar> \<le> DBL_MAX)"
| "is_double d = True"

definition valid_mu :: "dbl \<Rightarrow> bool" where
  "valid_mu mu = (isfinite mu \<and> d_less (Finite 0) mu)"

definition bounds_ok :: "bounds \<Rightarrow> bool" where
  "bounds_ok bounds = (case bounds of (b_a, b_e, b_inc, b_om, b_Om, b_f) \<Rightarrow>
     list_all bound_ok [b_a, b_e, b_inc, b_om, b_Om, b_f])"

definition bounds_are_doubles :: "bounds \<Rightarrow> bool" where
  "bounds_are_doubles bounds = (case bounds of (b_a, b_e, b_inc, b_om, b_Om, b_f) \<Rightarrow>
     list_all (\<lambda>b. is_double (fst b) \<and> is_double (snd b)) [b_a, b_e, b_inc, b_om, b_Om, b_f])"

text \<open>The element-specific conditions on the semi-major axis, the eccentricity and the inclination.\<close>

definition elements_ok :: "bounds \<Rightarrow> bool" where
  "elements_ok bounds = (case bounds of (b_a, b_e, b_inc, b_om, b_Om, b_f) \<Rightarrow>
     d_less (Finite 0) (fst b_a)
     \<and> d_less (Finite 0) (fst b_e) \<and> d_le (snd b_e) (Finite 1)
     \<and> d_less (Finite 0) (fst b_inc) \<and> d_le (snd b_inc) (Finite pi_double))"

definition angle_range_overflows :: "bounds \<Rightarrow> bool" where
  "angle_range_overflows bounds = (case bounds of (b_a, b_e, b_inc, b_om, b_Om, b_f) \<Rightarrow>
     range_overflows b_om \<or> range_overflows b_Om \<or> range_overflows b_f)"

definition some_range_overflows :: "bounds \<Rightarrow> bool" where
  "some_range_overflows bounds = (case bounds of (b_a, b_e, b_inc, b_om, b_Om, b_f) \<Rightarrow>
     range_overflows b_a \<or> range_overflows b_om \<or> range_overflows b_Om \<or> range_overflows b_f)"

text \<open>
  A generator for the concrete instances below: its state counts the draws, and every
  draw returns the middle of the interval.
\<close>

definition counting_rng :: "nat rng_ops" where
  "counting_rng = \<lparr>rng_seed = (\<lambda>s. 0), rng_draw = (\<lambda>g lb ub. ((lb + ub) / 2, Suc g))\<rparr>"

text \<open>
  Three inputs with \<open>mu = 1\<close> and finite bounds with \<open>ub > lb\<close>: all ranges valid; the
  omega range as wide as \<open>2 * DBL_MAX\<close>; and the same with the eccentricity range
  starting at \<open>- 1\<close>.
\<close>

definition plain_bounds :: bounds where
  "plain_bounds =
     ((Finite 1, Finite 2), (Finite (1 / 10), Finite (1 / 2)), (Finite (1 / 10), Finite 1),
      (Finite 0, Finite 1), (Finite 0, Finite 1), (Finite 0, Finite 1))"

definition wide_omega_bounds :: bounds where
  "wide_omega_bounds =
     ((Finite 1, Finite 2), (Finite (1 / 10), Finite (1 / 2)), (Finite (1 / 10), Finite 1),
      (Finite (- DBL_MAX), Finite DBL_MAX), (Finite 0, Finite 1), (Finite 0, Finite 1))"

definition wide_omega_bad_ecc_bounds :: bounds where
  "wide_omega_bad_ecc_bounds =
     ((Finite 1, Finite 2), (Finite (- 1), Finite (1 / 2)), (Finite (1 / 10), Finite 1),
      (Finite (- DBL_MAX), Finite DBL_MAX), (Finite 0, Finite 1), (Finite 0, Finite 1))"

section \<open>Notions used to state the properties of the jet function\<close>

text \<open>The system \<open>x' = x * y\<close>, \<open>y' = y * x\<close> of the tests, and its decomposition.\<close>

definition xy_system :: "(string \<times> expression) list" where
  "xy_system = [(''x'', e_mul (Var ''x'') (Var ''y'')), (''y'', e_mul (Var ''y'') (Var ''x''))]"

definition xy_dec :: "entry list" where
  "xy_dec = [State_id, State_id, Assign Mul (O_ref 0) (O_ref 1),
             Deriv_of (O_ref 2), Deriv_of (O_ref 2)]"

text \<open>
  The Taylor coefficients of the five entries of \<open>xy_dec\<close> in one lane, from the state
  \<open>(x0, y0)\<close> of that lane: entry \<open>r\<close> at order \<open>k\<close>.
\<close>

function xy_coeff :: "real \<Rightarrow> real \<Rightarrow> nat \<Rightarrow> nat \<Rightarrow> real" where
  "xy_coeff x0 y0 k r =
     (if r = 0 then (if k = 0 then x0 else xy_coeff x0 y0 (k - 1) 3 / real k)
      else if r = 1 then (if k = 0 then y0 else xy_coeff x0 y0 (k - 1) 4 / real k)
      else if r = 2 then (\<Sum>j\<leftarrow>[0..<Suc k]. xy_coeff x0 y0 j 0 * xy_coeff x0 y0 (k - j) 1)
      else xy_coeff x0 y0 k 2)"
  by pat_completeness auto
termination
  by (relation "measure (\<lambda>(x0, y0, k, r). 5 * k + min r 4)") auto

declare xy_coeff.simps [simp del]

text \<open>
  The cells that hold their final value when the loops of the jet function reach the
  cell \<open>(k, r, l)\<close>: the caller's state, the lower orders, the earlier rows of the same
  order and the earlier lanes of the same row.
\<close>

definition xy_done :: "nat \<Rightarrow> nat \<Rightarrow> nat \<Rightarrow> nat \<Rightarrow> nat \<Rightarrow> nat \<Rightarrow> bool" where
  "xy_done k r l k' r' l' =
     ((k' = 0 \<and> r' < 2) \<or> k' < k \<or> (k' = k \<and> (r' < r \<or> (r' = r \<and> l' < l))))"

definition xy_inv :: "nat \<Rightarrow> real list \<Rightarrow> nat \<Rightarrow> nat \<Rightarrow> nat \<Rightarrow> real list \<Rightarrow> bool" where
  "xy_inv B slab0 k r l slab =
     (length slab = length slab0
      \<and> (\<forall>k' r' l'. r' < 5 \<and> l' < B \<and> xy_done k r l k' r' l' \<longrightarrow>
            slab ! cell 5 B k' r' l'
              = xy_coeff (slab0 ! cell 5 B 0 0 l') (slab0 ! cell 5 B 0 1 l') k' r'))"

section \<open>Notions used to state the value of an N-body system\<close>





section \<open>Properties of pairwise summation\<close>

lemma pairwise_round_eq_Nil [simp]: "pairwise_round xs = [] \<longleftrightarrow> xs = []"
  by (induction xs rule: pairwise_round.induct) simp_all

lemma sum_list_pairwise_round:
  "sum_list (pairwise_round xs) = sum_list (xs :: 'a::monoid_add list)"
  by (induction xs rule: pairwise_round.induct) (simp_all add: add.assoc)

lemma pairwise_while_step:
  "length xs \<noteq> 1 \<Longrightarrow> xs \<noteq> [] \<Longrightarrow> pairwise_while xs = pairwise_while (pairwise_round xs)"
  by (subst pairwise_while.simps) simp

lemma pairwise_while_stop:
  "length xs = 1 \<or> xs = [] \<Longrightarrow> pairwise_while xs = xs"
  by (subst pairwise_while.simps) auto

lemma pairwise_while_singleton:
  "xs \<noteq> [] \<Longrightarrow> length (pairwise_while xs) = 1"
proof (induction xs rule: pairwise_while.induct)
  case (1 xs)
  show ?case
  proof (cases "length xs = 1")
    case True
    then show ?thesis by (simp add: pairwise_while_stop)
  next
    case False
    with 1(2) have c: "length xs \<noteq> 1 \<and> xs \<noteq> []" by simp
    with 1(1) [OF c] show ?thesis by (simp add: pairwise_while_step)
  qed
qed

lemma sum_list_pairwise_while:
  "sum_list (pairwise_while xs) = sum_list (xs :: 'a::monoid_add list)"
proof (induction xs rule: pairwise_while.induct)
  case (1 xs)
  show ?case
  proof (cases "length xs \<noteq> 1 \<and> xs \<noteq> []")
    case True
    with 1 [OF True] show ?thesis
      by (simp add: pairwise_while_step sum_list_pairwise_round)
  next
    case False
    then show ?thesis by (simp add: pairwise_while_stop)
  qed
qed

lemma hd_pairwise_while_sum:
  assumes "xs \<noteq> []"
  shows "hd (pairwise_while xs) = sum_list (xs :: 'a::monoid_add list)"
proof -
  from pairwise_while_singleton [OF assms]
  obtain s where s: "pairwise_while xs = [s]"
    by (cases "pairwise_while xs") auto
  with sum_list_pairwise_while [of xs] show ?thesis by simp
qed

lemma leaves_pairwise_round:
  "concat (map leaves (pairwise_round ts)) = concat (map leaves ts)"
  by (induction ts rule: pairwise_round.induct) (simp_all add: plus_sum_tree_def)

lemma leaves_pairwise_while:
  "concat (map leaves (pairwise_while ts)) = concat (map leaves ts)"
proof (induction ts rule: pairwise_while.induct)
  case (1 ts)
  show ?case
  proof (cases "length ts \<noteq> 1 \<and> ts \<noteq> []")
    case True
    with 1 [OF True] show ?thesis
      by (simp add: pairwise_while_step leaves_pairwise_round)
  next
    case False
    then show ?thesis by (simp add: pairwise_while_stop)
  qed
qed

lemma perfect_left_leaning: "is_perfect t \<Longrightarrow> left_leaning t"
  by (induction t) simp_all

lemma round_inv_pairwise_round:
  "round_inv k ts \<Longrightarrow> round_inv (Suc k) (pairwise_round ts)"
proof (induction ts rule: pairwise_round.induct)
  case 1
  then show ?case by simp
next
  case (2 x)
  then show ?case by simp
next
  case (3 x y zs)
  show ?case
  proof (cases zs)
    case Nil
    with 3 show ?thesis by (simp add: plus_sum_tree_def)
  next
    case (Cons z zs')
    with 3 have inv: "round_inv k zs" and px: "is_perfect x" "height x = k"
      and py: "is_perfect y" "height y = k"
      by simp_all
    from Cons have ne: "pairwise_round zs \<noteq> []" by simp
    then obtain u us where u: "pairwise_round zs = u # us"
      by (cases "pairwise_round zs") auto
    from 3 inv have "round_inv (Suc k) (pairwise_round zs)" by simp
    with px py u show ?thesis by (simp add: plus_sum_tree_def)
  qed
qed

lemma round_inv_pairwise_while:
  "round_inv k ts \<Longrightarrow> \<exists>k'. round_inv k' (pairwise_while ts)"
proof (induction ts arbitrary: k rule: pairwise_while.induct)
  case (1 ts)
  show ?case
  proof (cases "length ts \<noteq> 1 \<and> ts \<noteq> []")
    case True
    from 1(2) have "round_inv (Suc k) (pairwise_round ts)"
      by (rule round_inv_pairwise_round)
    from 1(1) [OF True this] True show ?thesis
      by (simp add: pairwise_while_step)
  next
    case False
    then have "pairwise_while ts = ts" by (simp add: pairwise_while_stop)
    with 1(2) show ?thesis by auto
  qed
qed

lemma round_inv_leaves: "xs \<noteq> [] \<Longrightarrow> round_inv 0 (map Leaf xs)"
proof (induction xs)
  case Nil
  then show ?case by simp
next
  case (Cons x xs)
  then show ?case by (cases xs) simp_all
qed

lemma length_leaves_le: "length (leaves t) \<le> 2 ^ height t"
proof (induction t)
  case (Node l r)
  have "(2::nat) ^ height l \<le> 2 ^ max (height l) (height r)"
    and "(2::nat) ^ height r \<le> 2 ^ max (height l) (height r)"
    by (simp_all add: power_increasing)
  with Node have "length (leaves l) \<le> 2 ^ max (height l) (height r)"
    and "length (leaves r) \<le> 2 ^ max (height l) (height r)"
    by linarith+
  then show ?case by simp
qed simp_all

lemma length_leaves_perfect: "is_perfect t \<Longrightarrow> length (leaves t) = 2 ^ height t"
  by (induction t) simp_all

lemma left_leaning_bounds:
  "left_leaning t \<Longrightarrow> 2 ^ height t < 2 * length (leaves t)"
proof (induction t)
  case (Node l r)
  then have pl: "is_perfect l" and hr: "height r \<le> height l" and lr: "left_leaning r"
    by simp_all
  from Node lr have "0 < length (leaves r)"
    by (cases "leaves r") auto
  moreover from hr have "max (height l) (height r) = height l" by simp
  ultimately show ?case using pl
    by (simp add: length_leaves_perfect)
qed simp_all

lemma pairwise_while_tree:
  assumes "xs \<noteq> []"
  shows "\<exists>t. pairwise_while (map Leaf xs) = [t] \<and> leaves t = xs \<and> left_leaning t"
proof -
  from assms have ne: "map Leaf xs \<noteq> []" by simp
  from pairwise_while_singleton [OF ne]
  obtain t where t: "pairwise_while (map Leaf xs) = [t]"
    by (cases "pairwise_while (map Leaf xs)") auto
  from round_inv_pairwise_while [OF round_inv_leaves [OF assms]] t
  have ll: "left_leaning t" by auto
  have "concat (map leaves (map Leaf xs)) = xs"
    by (induction xs) simp_all
  with leaves_pairwise_while [of "map Leaf xs"] t have "leaves t = xs" by simp
  with t ll show ?thesis by simp
qed

text \<open>
  Claim C2. For every non-empty operand list (one that a \<^verbatim>\<open>std::vector\<close> can hold, so
  that the size check does not throw), \<open>pairwise_sum\<close> returns the sum of all operands
  when addition is exact (associative, with neutral element \<open>0\<close>); a list of one
  element gives that element; and, run on symbolic operands, the additions it makes
  form a pairwise tree over the operands in their order, whose height \<open>h\<close> is the least
  with \<open>length xs \<le> 2 ^ h\<close> (balanced) and in which the left operand of each addition
  on the right spine is a perfect tree at least as high as the right operand
  (left-leaning when the number of operands is not a power of two).
\<close>

theorem pairwise_sum_balanced_tree_sum:
  fixes xs :: "'a::monoid_add list" and x :: "'b::{plus,zero}"
  assumes "xs \<noteq> []" and "length xs \<noteq> size_t_max"
  shows "pairwise_sum xs = Inr (sum_list xs)
    \<and> pairwise_sum [x] = Inr x
    \<and> (\<exists>t. pairwise_sum (map Leaf xs) = Inr t \<and> leaves t = xs \<and> left_leaning t
          \<and> length xs \<le> 2 ^ height t \<and> 2 ^ height t < 2 * length xs)"
proof -
  have total: "pairwise_sum xs = Inr (sum_list xs)"
    using assms by (simp add: pairwise_sum_def hd_pairwise_while_sum)
  have single: "pairwise_sum [x] = Inr x"
    by (simp add: pairwise_sum_def size_t_max_def pairwise_while_stop)
  from pairwise_while_tree [OF assms(1)]
  obtain t where t: "pairwise_while (map Leaf xs) = [t]" "leaves t = xs" "left_leaning t"
    by blast
  from t(2) length_leaves_le [of t] have upper: "length xs \<le> 2 ^ height t" by simp
  from t(2,3) left_leaning_bounds [of t] have lower: "2 ^ height t < 2 * length xs" by simp
  from assms t(1) have "pairwise_sum (map Leaf xs) = Inr t"
    by (simp add: pairwise_sum_def)
  with t(2,3) upper lower total single show ?thesis by blast
qed

theorem pairwise_sum_balanced_tree_sum_witness:
  "[1, 2, 3, 4, 5 :: real] \<noteq> [] \<and> length [1, 2, 3, 4, 5 :: real] \<noteq> size_t_max
   \<and> pairwise_sum [1, 2, 3, 4, 5 :: real] = Inr 15
   \<and> pairwise_sum [7 :: real] = Inr 7
   \<and> (\<exists>t. pairwise_sum (map Leaf [1, 2, 3, 4, 5 :: real]) = Inr t
         \<and> leaves t = [1, 2, 3, 4, 5] \<and> left_leaning t
         \<and> length [1, 2, 3, 4, 5 :: real] \<le> 2 ^ height t
         \<and> 2 ^ height t < 2 * length [1, 2, 3, 4, 5 :: real])"
  using pairwise_sum_balanced_tree_sum [of "[1, 2, 3, 4, 5 :: real]" "7 :: real"]
  by (simp add: size_t_max_def)

lemma pairwise_sum_five_operands:
  "pairwise_sum (map Leaf [a, b, c, d, e])
     = Inr (Node (Node (Node (Leaf a) (Leaf b)) (Node (Leaf c) (Leaf d))) (Leaf e))"
  by (simp add: pairwise_sum_def size_t_max_def pairwise_while.simps plus_sum_tree_def)

section \<open>The mascon right-hand side and the file-scope array\<close>

text \<open>
  Claim C1 says that the squared distance, and with it the acceleration written into
  \<^verbatim>\<open>dxdt\<close>, is computed from the points stored at construction only. The source does
  otherwise: with the object built from the single point \<open>(0, 0, 0)\<close> of mass \<open>1\<close>,
  \<open>G = 1\<close>, no rotation, and the state \<open>(0, 0, 2, 0, 0, 0)\<close>, a file-scope array holding
  \<open>(0, 0, 0)\<close> gives \<open>r2 = 4\<close>, a file-scope array holding \<open>(0, 0, 1)\<close> gives \<open>r2 = 2\<close>, and
  the sixth component of \<^verbatim>\<open>dxdt\<close> differs between the two.
\<close>

theorem mascon_call_reads_file_scope_points:
  "mascon_dynamics_ctor [[0, 0, 0]] [1] 0 0 0 1
     = Inr \<lparr>m_mascon_points = [[0, 0, 0]], m_mascon_masses = [1],
            m_p = 0, m_q = 0, m_r = 0, m_G = 1\<rparr>
   \<and> mascon_r2 [[0, 0, 0]] \<lparr>m_mascon_points = [[0, 0, 0]], m_mascon_masses = [1],
            m_p = 0, m_q = 0, m_r = 0, m_G = 1\<rparr> [0, 0, 2, 0, 0, 0] 0 = 4
   \<and> mascon_r2 [[0, 0, 1]] \<lparr>m_mascon_points = [[0, 0, 0]], m_mascon_masses = [1],
            m_p = 0, m_q = 0, m_r = 0, m_G = 1\<rparr> [0, 0, 2, 0, 0, 0] 0 = 2
   \<and> mascon_call [[0, 0, 0]] \<lparr>m_mascon_points = [[0, 0, 0]], m_mascon_masses = [1],
            m_p = 0, m_q = 0, m_r = 0, m_G = 1\<rparr> [0, 0, 2, 0, 0, 0] [0, 0, 0, 0, 0, 0]
       = Inr [0, 0, 0, 0, 0, - (2 * 4 powr (- 3 / 2))]
   \<and> mascon_call [[0, 0, 1]] \<lparr>m_mascon_points = [[0, 0, 0]], m_mascon_masses = [1],
            m_p = 0, m_q = 0, m_r = 0, m_G = 1\<rparr> [0, 0, 2, 0, 0, 0] [0, 0, 0, 0, 0, 0]
       = Inr [0, 0, 0, 0, 0, - (2 * 2 powr (- 3 / 2))]
   \<and> mascon_call [[0, 0, 0]] \<lparr>m_mascon_points = [[0, 0, 0]], m_mascon_masses = [1],
            m_p = 0, m_q = 0, m_r = 0, m_G = 1\<rparr> [0, 0, 2, 0, 0, 0] [0, 0, 0, 0, 0, 0]
       \<noteq> mascon_call [[0, 0, 1]] \<lparr>m_mascon_points = [[0, 0, 0]], m_mascon_masses = [1],
            m_p = 0, m_q = 0, m_r = 0, m_G = 1\<rparr> [0, 0, 2, 0, 0, 0] [0, 0, 0, 0, 0, 0]"
proof -
  have "(4 :: real) powr (- 3 / 2) < 2 powr (- 3 / 2)"
    by (rule powr_less_mono2_neg) simp_all
  then have "(4 :: real) powr (- 3 / 2) \<noteq> 2 powr (- 3 / 2)" by simp
  then show ?thesis
    by (simp add: mascon_dynamics_ctor_def mascon_call_def has_point_def mascon_term_def
        mascon_r2_def Let_def pairwise_sum_def size_t_max_def pairwise_while.simps)
qed

section \<open>Properties of the N-body systems\<close>

lemma of_char_digit: "d < 10 \<Longrightarrow> (of_char (digit_char d) :: nat) = 48 + d"
proof -
  assume "d < 10"
  then have "d \<in> {0, 1, 2, 3, 4, 5, 6, 7, 8, 9}" by auto
  then show ?thesis by (auto simp: digit_char_def)
qed

lemma string_to_nat_li_to_string: "string_to_nat (li_to_string n) = n"
proof (induction n rule: li_to_string.induct)
  case (1 n)
  show ?case
  proof (cases "n < 10")
    case True
    then show ?thesis
      by (subst li_to_string.simps) (simp add: string_to_nat_def of_char_digit)
  next
    case False
    with 1 have "string_to_nat (li_to_string (n div 10)) = n div 10" by simp
    with False show ?thesis
      by (subst li_to_string.simps) (simp add: string_to_nat_def of_char_digit)
  qed
qed

lemma li_to_string_inj [simp]: "li_to_string a = li_to_string b \<longleftrightarrow> a = b"
  by (metis string_to_nat_li_to_string)

lemma length_push_back [simp]: "length (push_back k e a) = length a"
  by (simp add: push_back_def)

lemma nth_push_back:
  "k' < length a \<Longrightarrow> push_back k e a ! k' = (if k' = k then a ! k @ [e] else a ! k')"
  by (simp add: push_back_def)

lemma length_pair_step [simp]: "length (pair_step mu oi oj sg i j a) = length a"
  by (simp add: pair_step_def)

lemma length_fold_pair_step [simp]: "length (fold (pair_step mu oi oj sg i) js a) = length a"
  by (induction js arbitrary: a) simp_all

lemma fold_pair_step_other:
  assumes "distinct js" and "i \<notin> set js" and "k < length a" and "k \<noteq> i"
  shows "fold (pair_step mu oi oj sg i) js a ! k
           = a ! k @ (if k \<in> set js then [incoming mu oj sg i k] else [])"
  using assms
proof (induction js arbitrary: a)
  case Nil
  then show ?case by simp
next
  case (Cons j js)
  from Cons.prems have len: "k < length (pair_step mu oi oj sg i j a)" by simp
  from Cons.prems have rest: "distinct js" "i \<notin> set js" by simp_all
  have step: "pair_step mu oi oj sg i j a ! k
                = (if k = j then a ! k @ [incoming mu oj sg i k] else a ! k)"
    using Cons.prems by (simp add: pair_step_def nth_push_back incoming_def)
  from Cons.IH [OF rest len Cons.prems(4)] step Cons.prems(1) show ?case
    by auto
qed

lemma fold_pair_step_self:
  assumes "i \<notin> set js" and "i < length a"
  shows "fold (pair_step mu oi oj sg i) js a ! i = a ! i @ map (oi i) (filter mu js)"
  using assms
proof (induction js arbitrary: a)
  case Nil
  then show ?case by simp
next
  case (Cons j js)
  from Cons.prems have ne: "i \<noteq> j" and rest: "i \<notin> set js" by auto
  from Cons.prems have len: "i < length (pair_step mu oi oj sg i j a)" by simp
  have step: "pair_step mu oi oj sg i j a ! i = (if mu j then a ! i @ [oi i j] else a ! i)"
    using Cons.prems ne by (simp add: pair_step_def nth_push_back)
  from Cons.IH [OF rest len] step show ?case by simp
qed

lemma acc_inv_step:
  assumes inv: "acc_inv mu oi oj sg n m a" and m: "m < n"
  shows "acc_inv mu oi oj sg n (Suc m) (fold (pair_step mu oi oj sg m) [Suc m..<n] a)"
proof -
  let ?a' = "fold (pair_step mu oi oj sg m) [Suc m..<n] a"
  from inv have len: "length a = n"
    and rows: "\<And>k. k < n \<Longrightarrow> a ! k = row_after mu oi oj sg n m k"
    by (simp_all add: acc_inv_def)
  have "?a' ! k = row_after mu oi oj sg n (Suc m) k" if k: "k < n" for k
  proof (cases "k = m")
    case True
    have "?a' ! m = a ! m @ map (oi m) (filter mu [Suc m..<n])"
      using m len by (intro fold_pair_step_self) simp_all
    with True rows [OF m] show ?thesis by (simp add: row_after_def)
  next
    case False
    have "?a' ! k = a ! k @ (if k \<in> set [Suc m..<n] then [incoming mu oj sg m k] else [])"
      using k len False by (intro fold_pair_step_other) simp_all
    with False rows [OF k] k show ?thesis
      by (cases "k < m") (auto simp: row_after_def)
  qed
  with len show ?thesis by (simp add: acc_inv_def)
qed

lemma acc_inv_init: "acc_inv mu oi oj sg n 0 (replicate n [])"
  by (simp add: acc_inv_def row_after_def)

lemma length_row_after: "m \<le> n \<Longrightarrow> k < n \<Longrightarrow> length (row_after mu oi oj sg n m k) < n"
proof -
  assume "m \<le> n" "k < n"
  have "length (filter mu [k + 1..<n]) \<le> length [k + 1..<n]" by (rule length_filter_le)
  with \<open>m \<le> n\<close> \<open>k < n\<close> show ?thesis by (auto simp: row_after_def)
qed

lemma fold_triple:
  assumes "\<And>j a b c. j \<in> set js \<Longrightarrow> f j (a, b, c) = (f1 j a, f2 j b, f3 j c)"
  shows "fold f js (a, b, c) = (fold f1 js a, fold f2 js b, fold f3 js c)"
  using assms by (induction js arbitrary: a b c) simp_all

lemma vars_nth [simp]:
  "i < n \<Longrightarrow> x_vars n ! i = pos_var X i"
  "i < n \<Longrightarrow> y_vars n ! i = pos_var Y i"
  "i < n \<Longrightarrow> z_vars n ! i = pos_var Z i"
  "i < n \<Longrightarrow> vx_vars n ! i = vel_var X i"
  "i < n \<Longrightarrow> vy_vars n ! i = vel_var Y i"
  "i < n \<Longrightarrow> vz_vars n ! i = vel_var Z i"
  by (simp_all add: x_vars_def y_vars_def z_vars_def vx_vars_def vy_vars_def vz_vars_def)

lemma pairwise_sum_psum:
  "length es \<noteq> size_t_max \<Longrightarrow> pairwise_sum es = Inr (psum es)"
  by (simp add: pairwise_sum_def psum_def zero_expression_def)

lemma fixed_restricted_pair_rows:
  assumes "i < n" and "j < n"
  shows "fixed_restricted_pair n G ms nm i j (a, b, c) =
    (pair_step (\<lambda>j. j < nm) (fixed_on_i G ms X) (fixed_on_j G ms X) (fixed_single G ms X) i j a,
     pair_step (\<lambda>j. j < nm) (fixed_on_i G ms Y) (fixed_on_j G ms Y) (fixed_single G ms Y) i j b,
     pair_step (\<lambda>j. j < nm) (fixed_on_i G ms Z) (fixed_on_j G ms Z) (fixed_single G ms Z) i j c)"
  using assms
  by (simp add: fixed_restricted_pair_def pair_step_def fixed_on_i_def fixed_on_j_def
      fixed_single_def r_m3_def diff_def Let_def)

lemma fixed_general_pair_rows:
  assumes "i < n" and "j < n"
  shows "fixed_general_pair n G ms i j (a, b, c) =
    (pair_step (\<lambda>j. \<not> is_zero (ms ! j)) (fixed_on_i G ms X) (fixed_on_j G ms X) (fixed_single G ms X) i j a,
     pair_step (\<lambda>j. \<not> is_zero (ms ! j)) (fixed_on_i G ms Y) (fixed_on_j G ms Y) (fixed_single G ms Y) i j b,
     pair_step (\<lambda>j. \<not> is_zero (ms ! j)) (fixed_on_i G ms Z) (fixed_on_j G ms Z) (fixed_single G ms Z) i j c)"
  using assms
  by (simp add: fixed_general_pair_def pair_step_def fixed_on_i_def fixed_on_j_def
      fixed_single_def r_m3_def diff_def Let_def)

lemma par_pair_rows:
  assumes "i < n" and "j < n"
  shows "par_pair n G nm i j (a, b, c) =
    (pair_step (\<lambda>j. j < nm) (par_on_i G X) (par_on_j G X) (par_single G X) i j a,
     pair_step (\<lambda>j. j < nm) (par_on_i G Y) (par_on_j G Y) (par_single G Y) i j b,
     pair_step (\<lambda>j. j < nm) (par_on_i G Z) (par_on_j G Z) (par_single G Z) i j c)"
  using assms
  by (simp add: par_pair_def pair_step_def par_on_i_def par_on_j_def
      par_single_def r_m3_def diff_def Let_def)

lemma for_each_append:
  "for_each body (xs @ ys) s =
     (case for_each body xs s of Inl e \<Rightarrow> Inl e | Inr s' \<Rightarrow> for_each body ys s')"
  by (induction xs arbitrary: s) (simp_all split: sum.splits)

lemma for_each_upt:
  assumes "a \<le> b" and "I a s"
    and step: "\<And>i s. a \<le> i \<Longrightarrow> i < b \<Longrightarrow> I i s \<Longrightarrow> \<exists>s'. body i s = Inr s' \<and> I (Suc i) s'"
  shows "\<exists>s'. for_each body [a..<b] s = Inr s' \<and> I b s'"
  using assms(1) step
proof (induction b)
  case 0
  with assms(2) show ?case by simp
next
  case (Suc b)
  show ?case
  proof (cases "a = Suc b")
    case True
    with assms(2) show ?thesis by simp
  next
    case False
    with Suc.prems(1) have ab: "a \<le> b" by simp
    have "\<exists>s'. for_each body [a..<b] s = Inr s' \<and> I b s'"
      using ab Suc.prems(2) by (intro Suc.IH) simp_all
    then obtain s1 where s1: "for_each body [a..<b] s = Inr s1" "I b s1" by blast
    from Suc.prems(2) [OF ab _ s1(2)] obtain s2 where s2: "body b s1 = Inr s2" "I (Suc b) s2"
      by auto
    from ab s1 s2 show ?thesis by (simp add: for_each_append)
  qed
qed

lemma push_acceleration_eqs_rows:
  assumes "i < n" and "n \<le> size_t_max"
    and "length (ax ! i) < n" and "length (ay ! i) < n" and "length (az ! i) < n"
  shows "push_acceleration_eqs n i (ax, ay, az) (push_position_eqs n i retval)
           = Inr (retval @ body_equations (\<lambda>c. case c of X \<Rightarrow> (!) ax | Y \<Rightarrow> (!) ay | Z \<Rightarrow> (!) az) i)"
  using assms
  by (simp add: push_acceleration_eqs_def push_position_eqs_def pairwise_sum_psum
      body_equations_def prime_eq_def)

lemma massive_body_step:
  assumes rows: "\<And>j a b c. j < n \<Longrightarrow> f j (a, b, c) =
      (pair_step mu (oi X) (oj X) (sg X) m j a,
       pair_step mu (oi Y) (oj Y) (sg Y) m j b,
       pair_step mu (oi Z) (oj Z) (sg Z) m j c)"
    and inv: "sys_inv mu oi oj sg n nm m s"
    and m: "m < nm" and nm: "nm \<le> n" and n: "n \<le> size_t_max"
  shows "\<exists>s'. massive_body_of f n m s = Inr s' \<and> sys_inv mu oi oj sg n nm (Suc m) s'"
proof -
  obtain retval ax ay az where s: "s = (retval, (ax, ay, az))"
    by (cases s) auto
  let ?ax = "fold (pair_step mu (oi X) (oj X) (sg X) m) [Suc m..<n] ax"
  let ?ay = "fold (pair_step mu (oi Y) (oj Y) (sg Y) m) [Suc m..<n] ay"
  let ?az = "fold (pair_step mu (oi Z) (oj Z) (sg Z) m) [Suc m..<n] az"
  let ?rows = "\<lambda>c. row_after mu (oi c) (oj c) (sg c) n nm"
  from m nm have mn: "m < n" by simp
  from m have minm: "min m nm = m" "min (Suc m) nm = Suc m" by simp_all
  have fold_eq: "fold f [Suc m..<n] (ax, ay, az) = (?ax, ?ay, ?az)"
    by (rule fold_triple) (simp add: rows)
  from inv s minm have ix: "acc_inv mu (oi X) (oj X) (sg X) n m ax"
    and iy: "acc_inv mu (oi Y) (oj Y) (sg Y) n m ay"
    and iz: "acc_inv mu (oi Z) (oj Z) (sg Z) n m az"
    and rv: "retval = concat (map (body_equations ?rows) [0..<m])"
    by (simp_all add: sys_inv_def)
  have ix': "acc_inv mu (oi X) (oj X) (sg X) n (Suc m) ?ax"
    and iy': "acc_inv mu (oi Y) (oj Y) (sg Y) n (Suc m) ?ay"
    and iz': "acc_inv mu (oi Z) (oj Z) (sg Z) n (Suc m) ?az"
    using ix iy iz mn by (simp_all add: acc_inv_step)
  have row_eq: "row_after mu (oi c) (oj c) (sg c) n (Suc m) m = ?rows c m" for c
    using m by (simp add: row_after_def)
  from ix' iy' iz' mn have rx: "?ax ! m = ?rows X m" and ry: "?ay ! m = ?rows Y m"
    and rz: "?az ! m = ?rows Z m"
    by (simp_all add: acc_inv_def row_eq)
  have lens: "length (?ax ! m) < n" "length (?ay ! m) < n" "length (?az ! m) < n"
    using rx ry rz mn nm by (simp_all add: length_row_after)
  have be: "body_equations (\<lambda>c. case c of X \<Rightarrow> (!) ?ax | Y \<Rightarrow> (!) ?ay | Z \<Rightarrow> (!) ?az) m
              = body_equations ?rows m"
    using rx ry rz by (simp add: body_equations_def)
  have "massive_body_of f n m s
          = Inr (retval @ body_equations ?rows m, (?ax, ?ay, ?az))"
    using push_acceleration_eqs_rows [OF mn n lens, of retval] be
    by (simp add: massive_body_of_def s fold_eq Let_def)
  moreover have "sys_inv mu oi oj sg n nm (Suc m) (retval @ body_equations ?rows m, (?ax, ?ay, ?az))"
    using ix' iy' iz' rv minm by (simp add: sys_inv_def)
  ultimately show ?thesis by blast
qed

lemma massless_body_step:
  assumes inv: "sys_inv mu oi oj sg n nm m s"
    and m: "nm \<le> m" "m < n" and n: "n \<le> size_t_max"
  shows "\<exists>s'. massless_body n m s = Inr s' \<and> sys_inv mu oi oj sg n nm (Suc m) s'"
proof -
  obtain retval ax ay az where s: "s = (retval, (ax, ay, az))"
    by (cases s) auto
  let ?rows = "\<lambda>c. row_after mu (oi c) (oj c) (sg c) n nm"
  from m have minm: "min m nm = nm" "min (Suc m) nm = nm" by simp_all
  from m have nm: "nm \<le> n" by simp
  from inv s minm have ix: "acc_inv mu (oi X) (oj X) (sg X) n nm ax"
    and iy: "acc_inv mu (oi Y) (oj Y) (sg Y) n nm ay"
    and iz: "acc_inv mu (oi Z) (oj Z) (sg Z) n nm az"
    and rv: "retval = concat (map (body_equations ?rows) [0..<m])"
    by (simp_all add: sys_inv_def)
  from ix iy iz m have rx: "ax ! m = ?rows X m" and ry: "ay ! m = ?rows Y m"
    and rz: "az ! m = ?rows Z m"
    by (simp_all add: acc_inv_def)
  have lens: "length (ax ! m) < n" "length (ay ! m) < n" "length (az ! m) < n"
    using rx ry rz m nm by (simp_all add: length_row_after)
  have be: "body_equations (\<lambda>c. case c of X \<Rightarrow> (!) ax | Y \<Rightarrow> (!) ay | Z \<Rightarrow> (!) az) m
              = body_equations ?rows m"
    using rx ry rz by (simp add: body_equations_def)
  have "massless_body n m s = Inr (retval @ body_equations ?rows m, (ax, ay, az))"
    using push_acceleration_eqs_rows [OF m(2) n lens, of retval] be
    by (simp add: massless_body_def s)
  moreover have "sys_inv mu oi oj sg n nm (Suc m) (retval @ body_equations ?rows m, (ax, ay, az))"
    using ix iy iz rv minm by (simp add: sys_inv_def)
  ultimately show ?thesis by blast
qed

lemma sys_inv_init:
  "sys_inv mu oi oj sg n nm 0 ([], (replicate n [], replicate n [], replicate n []))"
  by (simp add: sys_inv_def acc_inv_init)

text \<open>The two loops in sequence: the massive bodies, then the remaining ones.\<close>

lemma two_loops:
  assumes rows: "\<And>i j a b c. i < n \<Longrightarrow> j < n \<Longrightarrow> f i j (a, b, c) =
      (pair_step mu (oi X) (oj X) (sg X) i j a,
       pair_step mu (oi Y) (oj Y) (sg Y) i j b,
       pair_step mu (oi Z) (oj Z) (sg Z) i j c)"
    and nm: "nm \<le> n" and n: "n \<le> size_t_max"
  shows "\<exists>a. (case for_each (\<lambda>i. massive_body_of (f i) n i) [0..<nm]
                 ([], (replicate n [], replicate n [], replicate n [])) of
              Inl e \<Rightarrow> Inl e
            | Inr s \<Rightarrow> for_each (massless_body n) [nm..<n] s)
          = Inr (concat (map (body_equations (\<lambda>c. row_after mu (oi c) (oj c) (sg c) n nm)) [0..<n]), a)"
proof -
  let ?s0 = "([], (replicate n [], replicate n [], replicate n [])) :: sys_state"
  have "\<exists>s'. for_each (\<lambda>i. massive_body_of (f i) n i) [0..<nm] ?s0 = Inr s'
          \<and> sys_inv mu oi oj sg n nm nm s'"
  proof (rule for_each_upt [where I = "sys_inv mu oi oj sg n nm"])
    show "sys_inv mu oi oj sg n nm 0 ?s0" by (rule sys_inv_init)
    fix i s
    assume i: "i < nm" and inv: "sys_inv mu oi oj sg n nm i s"
    from i nm have "i < n" by simp
    then show "\<exists>s'. massive_body_of (f i) n i s = Inr s' \<and> sys_inv mu oi oj sg n nm (Suc i) s'"
      using inv i nm n by (intro massive_body_step) (simp_all add: rows)
  qed simp
  then obtain s1 where s1: "for_each (\<lambda>i. massive_body_of (f i) n i) [0..<nm] ?s0 = Inr s1"
    and inv1: "sys_inv mu oi oj sg n nm nm s1" by blast
  have "\<exists>s'. for_each (massless_body n) [nm..<n] s1 = Inr s' \<and> sys_inv mu oi oj sg n nm n s'"
  proof (rule for_each_upt [where I = "sys_inv mu oi oj sg n nm"])
    show "nm \<le> n" by (rule nm)
    show "sys_inv mu oi oj sg n nm nm s1" by (rule inv1)
    fix i s
    assume "nm \<le> i" "i < n" "sys_inv mu oi oj sg n nm i s"
    then show "\<exists>s'. massless_body n i s = Inr s' \<and> sys_inv mu oi oj sg n nm (Suc i) s'"
      using n by (intro massless_body_step)
  qed
  then obtain s2 where s2: "for_each (massless_body n) [nm..<n] s1 = Inr s2"
    and inv2: "sys_inv mu oi oj sg n nm n s2" by blast
  obtain retval a where "s2 = (retval, a)" by (cases s2)
  with inv2 s1 s2 show ?thesis by (cases a) (auto simp: sys_inv_def)
qed

lemma unat32_le_size_t_max: "unat (n :: 32 word) \<le> size_t_max"
proof -
  have "unat n < 2 ^ 32" using unsigned_less [of n] by simp
  then show ?thesis by (simp add: size_t_max_def)
qed

lemma count_masses_le: "n_fc_massive masses + n_fc_massless masses \<le> length masses"
proof -
  have "length (takeWhile is_zero (dropWhile (\<lambda>m. \<not> is_zero m) masses))
          \<le> length (dropWhile (\<lambda>m. \<not> is_zero m) masses)"
    by (rule length_takeWhile_le)
  moreover have "length (takeWhile (\<lambda>m. \<not> is_zero m) masses)
          + length (dropWhile (\<lambda>m. \<not> is_zero m) masses) = length masses"
    by (metis length_append takeWhile_dropWhile_id)
  ultimately show ?thesis by (simp add: n_fc_massive_def n_fc_massless_def)
qed

lemma par_body_eq:
  "par_body n G nm = (\<lambda>i. massive_body_of (par_pair n G nm i) n i)"
  by (rule ext) (simp add: par_body_def massive_body_of_def)

lemma fixed_restricted_body_eq:
  "fixed_restricted_body n G ms nm = (\<lambda>i. massive_body_of (fixed_restricted_pair n G ms nm i) n i)"
  by (rule ext) (simp add: fixed_restricted_body_def massive_body_of_def)

lemma fixed_general_body_eq:
  "fixed_general_body n G ms = (\<lambda>i. massive_body_of (fixed_general_pair n G ms i) n i)"
  by (rule ext) (simp add: fixed_general_body_def massive_body_of_def)

lemma par_masses_system:
  assumes n: "2 \<le> unat n" and nm: "unat nm \<le> unat n"
  shows "make_nbody_sys_par_masses n G nm
           = Inr (concat (map (body_equations (par_rows (unat n) G (unat nm))) [0..<unat n]))"
proof -
  from two_loops [of "unat n" "par_pair (unat n) G (unat nm)" "\<lambda>j. j < unat nm"
      "par_on_i G" "par_on_j G" "par_single G" "unat nm", OF par_pair_rows nm unat32_le_size_t_max]
  obtain a where "(case for_each (par_body (unat n) G (unat nm)) [0..<unat nm]
                 ([], (replicate (unat n) [], replicate (unat n) [], replicate (unat n) [])) of
              Inl e \<Rightarrow> Inl e
            | Inr s \<Rightarrow> for_each (massless_body (unat n)) [unat nm..<unat n] s)
          = Inr (concat (map (body_equations (par_rows (unat n) G (unat nm))) [0..<unat n]), a)"
    unfolding par_body_eq par_rows_def by blast
  with n nm show ?thesis
    by (auto simp: make_nbody_sys_par_masses_def Let_def split: sum.splits)
qed

lemma fixed_masses_system:
  assumes n: "2 \<le> unat n" and len: "length masses = unat n"
  shows "make_nbody_sys_fixed_masses n G masses
           = Inr (concat (map (body_equations (fixed_rows (unat n) G masses)) [0..<unat n]))"
proof (cases "restricted masses")
  case True
  let ?nm = "n_fc_massive masses"
  from count_masses_le [of masses] len have nm: "?nm \<le> unat n" by simp
  from two_loops [of "unat n" "fixed_restricted_pair (unat n) G masses ?nm" "\<lambda>j. j < ?nm"
      "fixed_on_i G masses" "fixed_on_j G masses" "fixed_single G masses" ?nm,
      OF fixed_restricted_pair_rows nm unat32_le_size_t_max]
  obtain a where "(case for_each (fixed_restricted_body (unat n) G masses ?nm) [0..<?nm]
                 ([], (replicate (unat n) [], replicate (unat n) [], replicate (unat n) [])) of
              Inl e \<Rightarrow> Inl e
            | Inr s \<Rightarrow> for_each (massless_body (unat n)) [?nm..<unat n] s)
          = Inr (concat (map (body_equations (fixed_rows (unat n) G masses)) [0..<unat n]), a)"
    unfolding fixed_restricted_body_eq fixed_rows_def using True by auto
  with n len True count_masses_le [of masses] show ?thesis
    unfolding make_nbody_sys_fixed_masses_def restricted_def n_fc_massive_def n_fc_massless_def
    by (auto simp: Let_def split: sum.splits)
next
  case False
  from two_loops [of "unat n" "fixed_general_pair (unat n) G masses" "\<lambda>j. \<not> is_zero (masses ! j)"
      "fixed_on_i G masses" "fixed_on_j G masses" "fixed_single G masses" "unat n",
      OF fixed_general_pair_rows order_refl unat32_le_size_t_max]
  obtain a where "for_each (fixed_general_body (unat n) G masses) [0..<unat n]
                 ([], (replicate (unat n) [], replicate (unat n) [], replicate (unat n) []))
          = Inr (concat (map (body_equations (fixed_rows (unat n) G masses)) [0..<unat n]), a)"
    unfolding fixed_general_body_eq fixed_rows_def using False by (auto split: sum.splits)
  with n len False count_masses_le [of masses] show ?thesis
    unfolding make_nbody_sys_fixed_masses_def restricted_def n_fc_massive_def n_fc_massless_def
    by (auto simp: Let_def split: sum.splits)
qed

lemma pairwise_round_closed:
  assumes "\<forall>t\<in>set ts. P t" and "\<And>a b. P a \<Longrightarrow> P b \<Longrightarrow> P (a + b)"
  shows "\<forall>t\<in>set (pairwise_round ts). P t"
  using assms(1) by (induction ts rule: pairwise_round.induct) (simp_all add: assms(2))

lemma pairwise_while_closed:
  assumes "\<forall>t\<in>set ts. P t" and plus: "\<And>a b. P a \<Longrightarrow> P b \<Longrightarrow> P (a + b)"
  shows "\<forall>t\<in>set (pairwise_while ts). P t"
  using assms(1)
proof (induction ts rule: pairwise_while.induct)
  case (1 ts)
  show ?case
  proof (cases "length ts \<noteq> 1 \<and> ts \<noteq> []")
    case True
    from 1(2) have "\<forall>t\<in>set (pairwise_round ts). P t"
      by (rule pairwise_round_closed) (rule plus)
    from 1(1) [OF True this] True show ?thesis by (simp add: pairwise_while_step)
  next
    case False
    then have "pairwise_while ts = ts" by (simp add: pairwise_while_stop)
    with 1(2) show ?thesis by simp
  qed
qed

lemma psum_closed:
  assumes plus: "\<And>a b. P a \<Longrightarrow> P b \<Longrightarrow> P (a + b)"
    and zero: "P (Num 0)" and terms: "\<forall>t\<in>set ts. P t"
  shows "P (psum ts)"
proof (cases "ts = []")
  case True
  with zero show ?thesis by (simp add: psum_def)
next
  case False
  from pairwise_while_singleton [OF False]
  obtain s where s: "pairwise_while ts = [s]"
    by (cases "pairwise_while ts") auto
  have "\<forall>t\<in>set (pairwise_while ts). P t"
    using terms by (rule pairwise_while_closed) (rule plus)
  with s have "P s" by simp
  with False s show ?thesis by (simp add: psum_def)
qed

lemma vars_of_e_add: "vars_of (e_add a b) \<subseteq> vars_of a \<union> vars_of b"
  by (induction a b rule: e_add.induct) auto


lemma nth_concat_blocks:
  assumes len: "\<And>i. length (f i) = m" and k: "k < n" and r: "r < m"
  shows "concat (map f [0..<n]) ! (m * k + r) = f k ! r"
  using k
proof (induction n)
  case 0
  then show ?case by simp
next
  case (Suc n)
  have total: "length (concat (map f [0..<n])) = m * n"
    by (induction n) (simp_all add: len)
  show ?case
  proof (cases "k = n")
    case True
    with r total show ?thesis by (simp add: nth_append)
  next
    case False
    with Suc.prems have kn: "k < n" by simp
    have "m * k + r < m * n"
    proof -
      from kn have "Suc k \<le> n" by simp
      then have "m * Suc k \<le> m * n" by (rule mult_le_mono2)
      with r show ?thesis by simp
    qed
    with Suc.IH [OF kn] total show ?thesis by (simp add: nth_append)
  qed
qed

lemma length_concat_blocks:
  assumes "\<And>i. length (f i) = m"
  shows "length (concat (map f [0..<n])) = m * n"
  by (induction n) (simp_all add: assms)

lemma length_body_equations [simp]: "length (body_equations rows i) = 6"
  by (simp add: body_equations_def)

lemma block_layout:
  assumes "heavy \<noteq> []" and "light \<noteq> []"
    and "\<forall>m\<in>set heavy. m \<noteq> 0" and "\<forall>m\<in>set light. m = 0"
  shows "n_fc_massive (heavy @ light) = length heavy"
    and "n_fc_massless (heavy @ light) = length light"
    and "restricted (heavy @ light)"
proof -
  from assms(2) obtain z zs where light: "light = z # zs" by (cases light) auto
  with assms(4) have z: "z = 0" by simp
  have tw: "takeWhile (\<lambda>m. \<not> is_zero m) (heavy @ light) = heavy"
    using assms(3) light z by (simp add: takeWhile_append2 is_zero_def)
  have dw: "dropWhile (\<lambda>m. \<not> is_zero m) (heavy @ light) = light"
    using assms(3) light z by (simp add: dropWhile_append2 is_zero_def)
  have tl: "takeWhile is_zero light = light"
    using assms(4) by (simp add: is_zero_def)
  show a: "n_fc_massive (heavy @ light) = length heavy"
    by (simp add: n_fc_massive_def tw)
  show b: "n_fc_massless (heavy @ light) = length light"
    by (simp add: n_fc_massless_def dw tl)
  from a b assms(2) show "restricted (heavy @ light)"
    by (simp add: restricted_def)
qed

lemma vars_of_fixed_single:
  "vars_of (fixed_single G masses c i k) = pos_vars k \<union> pos_vars i"
  by (cases c)
    (auto simp: fixed_single_def diff_def r_m3_def pow_def square_def plus_expression_def
      pos_vars_def)

lemma pos_vars_disjoint: "k' \<noteq> k \<Longrightarrow> pos_vars k' \<inter> pos_vars k = {}"
  by (auto simp: pos_vars_def)

lemma restricted_massless_row:
  assumes "restricted masses" and "n_fc_massive masses \<le> k"
  shows "fixed_rows n G masses c k
           = map (\<lambda>i. fixed_single G masses c i k) [0..<n_fc_massive masses]"
  using assms by (simp add: fixed_rows_def row_after_def incoming_def)

text \<open>
  Claim C4. Let the masses be a non-empty block of non-zero masses followed by at least
  one zero mass, \<open>n \<ge> 2\<close> their number, and \<open>k\<close> a massless body. Then
  \<open>make_nbody_sys_fixed_masses\<close> returns a system of \<open>6 * n\<close> equations in which, for each
  coordinate, the acceleration of body \<open>k\<close> is the pairwise sum of one term for each
  massive body \<open>i\<close>; the variables of that term are the positions of \<open>k\<close> and of \<open>i\<close>; and
  no position variable of another massless body occurs in the acceleration.
\<close>

theorem massless_bodies_feel_only_massive:
  assumes n: "2 \<le> unat n"
    and layout: "masses = heavy @ light" "heavy \<noteq> []" "light \<noteq> []"
      "0 \<notin> set heavy" "set light = {0}"
    and len: "length masses = unat n"
    and k: "length heavy \<le> k" "k < unat n"
  shows "\<exists>sys. make_nbody_sys_fixed_masses n G masses = Inr sys \<and> length sys = 6 * unat n
    \<and> (\<forall>c. \<exists>terms. sys ! (6 * k + (3 + coord_index c)) = (vel_var c k, psum terms)
          \<and> pairwise_sum terms = Inr (psum terms)
          \<and> length terms = length heavy
          \<and> (\<forall>i<length heavy. terms ! i = fixed_single G masses c i k
                \<and> vars_of (terms ! i) = pos_vars k \<union> pos_vars i)
          \<and> vars_of (psum terms) \<subseteq> pos_vars k \<union> (\<Union>i<length heavy. pos_vars i)
          \<and> (\<forall>k'. length heavy \<le> k' \<and> k' \<noteq> k \<longrightarrow> vars_of (psum terms) \<inter> pos_vars k' = {}))"
proof -
  let ?rows = "fixed_rows (unat n) G masses"
  let ?sys = "concat (map (body_equations ?rows) [0..<unat n])"
  let ?nm = "length heavy"
  from layout have "\<forall>m\<in>set heavy. m \<noteq> 0" and "\<forall>m\<in>set light. m = 0"
    by auto
  with layout(1,2,3) have nm: "n_fc_massive masses = ?nm" and res: "restricted masses"
    by (simp_all add: block_layout)
  have sys: "make_nbody_sys_fixed_masses n G masses = Inr ?sys"
    using n len by (rule fixed_masses_system)
  have lsys: "length ?sys = 6 * unat n"
    by (rule length_concat_blocks) simp
  have main: "\<exists>terms. ?sys ! (6 * k + (3 + coord_index c)) = (vel_var c k, psum terms)
          \<and> pairwise_sum terms = Inr (psum terms)
          \<and> length terms = ?nm
          \<and> (\<forall>i<?nm. terms ! i = fixed_single G masses c i k
                \<and> vars_of (terms ! i) = pos_vars k \<union> pos_vars i)
          \<and> vars_of (psum terms) \<subseteq> pos_vars k \<union> (\<Union>i<?nm. pos_vars i)
          \<and> (\<forall>k'. ?nm \<le> k' \<and> k' \<noteq> k \<longrightarrow> vars_of (psum terms) \<inter> pos_vars k' = {})" for c
  proof -
    let ?terms = "map (\<lambda>i. fixed_single G masses c i k) [0..<?nm]"
    let ?V = "pos_vars k \<union> (\<Union>i<?nm. pos_vars i)"
    have row: "?rows c k = ?terms"
      using res k(1) nm restricted_massless_row [of masses k "unat n" G c] by simp
    have "3 + coord_index c < 6" by (cases c) simp_all
    then have "?sys ! (6 * k + (3 + coord_index c))
                 = body_equations ?rows k ! (3 + coord_index c)"
      using k(2) by (intro nth_concat_blocks) simp_all
    also have "\<dots> = (vel_var c k, psum (?rows c k))"
      by (cases c) (simp_all add: body_equations_def)
    finally have entry: "?sys ! (6 * k + (3 + coord_index c)) = (vel_var c k, psum ?terms)"
      by (simp add: row)
    have "length ?terms < size_t_max"
    proof -
      from len layout have "?nm \<le> unat n" by simp
      with unat32_le_size_t_max [of n] layout(3) len layout(1) show ?thesis
        by (cases light) auto
    qed
    then have ps: "pairwise_sum ?terms = Inr (psum ?terms)"
      by (simp add: pairwise_sum_psum)
    have each: "\<forall>i<?nm. ?terms ! i = fixed_single G masses c i k
                \<and> vars_of (?terms ! i) = pos_vars k \<union> pos_vars i"
      by (simp add: vars_of_fixed_single)
    have sub: "vars_of (psum ?terms) \<subseteq> ?V"
    proof (rule psum_closed [where P = "\<lambda>e. vars_of e \<subseteq> ?V"])
      fix a b
      assume "vars_of a \<subseteq> ?V" "vars_of b \<subseteq> ?V"
      with vars_of_e_add [of a b] show "vars_of (a + b) \<subseteq> ?V"
        by (simp add: plus_expression_def) blast
    next
      show "vars_of (Num 0) \<subseteq> ?V" by simp
    next
      show "\<forall>t\<in>set ?terms. vars_of t \<subseteq> ?V"
        by (auto simp: vars_of_fixed_single)
    qed
    have disj: "vars_of (psum ?terms) \<inter> pos_vars k' = {}" if "?nm \<le> k'" "k' \<noteq> k" for k'
    proof -
      have "pos_vars k' \<inter> pos_vars k = {}" using that(2) by (rule pos_vars_disjoint)
      moreover have "pos_vars k' \<inter> pos_vars i = {}" if "i < ?nm" for i
        using that \<open>?nm \<le> k'\<close> by (intro pos_vars_disjoint) simp
      ultimately have "?V \<inter> pos_vars k' = {}" by blast
      with sub show ?thesis by blast
    qed
    from entry ps each sub disj show ?thesis
      by (intro exI [of _ ?terms]) simp
  qed
  from sys lsys main show ?thesis by blast
qed

lemmas nbody_eval = make_nbody_sys_par_masses_def make_nbody_sys_fixed_masses_def par_body_def
  massless_body_def fixed_restricted_body_def fixed_general_body_def fixed_restricted_pair_def
  fixed_general_pair_def push_position_eqs_def push_acceleration_eqs_def par_pair_def Let_def
  is_zero_def push_back_def pairwise_sum_def size_t_max_def pairwise_while.simps
  x_vars_def y_vars_def z_vars_def vx_vars_def vy_vars_def vz_vars_def
  li_to_string.simps digit_char_def prime_eq_def e_neg_def e_div_def pow_def square_def
  plus_expression_def zero_expression_def upt_rec

theorem massless_bodies_feel_only_massive_witness:
  "2 \<le> unat (3 :: 32 word) \<and> [2, 0, 0 :: real] = [2] @ [0, 0] \<and> [2 :: real] \<noteq> []
   \<and> [0, 0 :: real] \<noteq> [] \<and> (0 :: real) \<notin> set [2] \<and> set [0, 0 :: real] = {0}
   \<and> length [2, 0, 0 :: real] = unat (3 :: 32 word) \<and> length [2 :: real] \<le> 1
   \<and> 1 < unat (3 :: 32 word)
   \<and> (\<exists>sys. make_nbody_sys_fixed_masses 3 1 [2, 0, 0] = Inr sys \<and> length sys = 18
        \<and> sys ! 9 = (Var ''vx_1'',
              Bin Mul (Bin Sub (Var ''x_1'') (Var ''x_0''))
                (Bin Mul (Num (- 2))
                  (Func ''pow''
                    [Bin Add
                       (Bin Add (Func ''square'' [Bin Sub (Var ''x_1'') (Var ''x_0'')])
                                (Func ''square'' [Bin Sub (Var ''y_1'') (Var ''y_0'')]))
                       (Func ''square'' [Bin Sub (Var ''z_1'') (Var ''z_0'')]),
                     Num (- 3 / 2)])))
        \<and> vars_of (snd (sys ! 9)) \<inter> pos_vars 2 = {})"
proof -
  have h: "2 \<le> unat (3 :: 32 word)" "[2, 0, 0 :: real] = [2] @ [0, 0]" "[2 :: real] \<noteq> []"
    "[0, 0 :: real] \<noteq> []" "(0 :: real) \<notin> set [2]" "set [0, 0 :: real] = {0}"
    "length [2, 0, 0 :: real] = unat (3 :: 32 word)" "length [2 :: real] \<le> 1"
    "1 < unat (3 :: 32 word)"
    by simp_all
  from massless_bodies_feel_only_massive [OF h, of 1]
  obtain sys where sys: "make_nbody_sys_fixed_masses 3 1 [2, 0, 0] = Inr sys"
    and len: "length sys = 6 * unat (3 :: 32 word)"
    and rows: "\<forall>c. \<exists>terms. sys ! (6 * 1 + (3 + coord_index c)) = (vel_var c 1, psum terms)
          \<and> pairwise_sum terms = Inr (psum terms)
          \<and> length terms = length [2 :: real]
          \<and> (\<forall>i<length [2 :: real]. terms ! i = fixed_single 1 [2, 0, 0] c i 1
                \<and> vars_of (terms ! i) = pos_vars 1 \<union> pos_vars i)
          \<and> vars_of (psum terms) \<subseteq> pos_vars 1 \<union> (\<Union>i<length [2 :: real]. pos_vars i)
          \<and> (\<forall>k'. length [2 :: real] \<le> k' \<and> k' \<noteq> 1 \<longrightarrow> vars_of (psum terms) \<inter> pos_vars k' = {})"
    by blast
  from rows [rule_format, of X] obtain terms
    where t: "sys ! 9 = (vel_var X 1, psum terms)"
      and d: "\<forall>k'. length [2 :: real] \<le> k' \<and> k' \<noteq> 1 \<longrightarrow> vars_of (psum terms) \<inter> pos_vars k' = {}"
    by auto
  from d have "vars_of (psum terms) \<inter> pos_vars 2 = {}" by simp
  with t have disj: "vars_of (snd (sys ! 9)) \<inter> pos_vars 2 = {}" by simp
  from sys have entry: "sys ! 9 = (Var ''vx_1'',
              Bin Mul (Bin Sub (Var ''x_1'') (Var ''x_0''))
                (Bin Mul (Num (- 2))
                  (Func ''pow''
                    [Bin Add
                       (Bin Add (Func ''square'' [Bin Sub (Var ''x_1'') (Var ''x_0'')])
                                (Func ''square'' [Bin Sub (Var ''y_1'') (Var ''y_0'')]))
                       (Func ''square'' [Bin Sub (Var ''z_1'') (Var ''z_0'')]),
                     Num (- 3 / 2)])))"
    by (auto simp: nbody_eval)
  from len have "length sys = 18" by simp
  with h sys entry disj show ?thesis by blast
qed

text \<open>
  Claim C6. For \<open>n \<ge> 2\<close>, \<open>make_nbody_sys_fixed_masses\<close> throws \<^verbatim>\<open>std::invalid_argument\<close>
  if and only if the number of masses differs from \<open>n\<close>, and \<open>make_nbody_sys_par_masses\<close>
  if and only if \<open>n_massive > n\<close>; on valid input both return a system and throw
  nothing (the \<^verbatim>\<open>overflow_error\<close> of \<^verbatim>\<open>pairwise_sum\<close> cannot occur). The exception is the
  whole result: no equation has been pushed to \<^verbatim>\<open>retval\<close> when the size check fails.
\<close>

theorem nbody_builders_invalid_argument_iff:
  assumes "2 \<le> unat n"
  shows "(make_nbody_sys_fixed_masses n G masses = Inl Invalid_argument \<longleftrightarrow> length masses \<noteq> unat n)
    \<and> (length masses = unat n \<longrightarrow>
          make_nbody_sys_fixed_masses n G masses
            = Inr (concat (map (body_equations (fixed_rows (unat n) G masses)) [0..<unat n])))
    \<and> (make_nbody_sys_par_masses n G n_massive = Inl Invalid_argument \<longleftrightarrow> unat n < unat n_massive)
    \<and> (unat n_massive \<le> unat n \<longrightarrow>
          make_nbody_sys_par_masses n G n_massive
            = Inr (concat (map (body_equations (par_rows (unat n) G (unat n_massive))) [0..<unat n])))"
proof -
  have f1: "make_nbody_sys_fixed_masses n G masses = Inl Invalid_argument" if "length masses \<noteq> unat n"
    using that assms by (simp add: make_nbody_sys_fixed_masses_def Let_def)
  have f2: "make_nbody_sys_fixed_masses n G masses
            = Inr (concat (map (body_equations (fixed_rows (unat n) G masses)) [0..<unat n]))"
    if "length masses = unat n"
    using assms that by (rule fixed_masses_system)
  have p1: "make_nbody_sys_par_masses n G n_massive = Inl Invalid_argument" if "unat n < unat n_massive"
    using that assms by (simp add: make_nbody_sys_par_masses_def Let_def)
  have p2: "make_nbody_sys_par_masses n G n_massive
            = Inr (concat (map (body_equations (par_rows (unat n) G (unat n_massive))) [0..<unat n]))"
    if "unat n_massive \<le> unat n"
    using assms that by (rule par_masses_system)
  from f1 f2 have "make_nbody_sys_fixed_masses n G masses = Inl Invalid_argument \<longleftrightarrow> length masses \<noteq> unat n"
    by (cases "length masses = unat n") simp_all
  moreover from p1 p2 have "make_nbody_sys_par_masses n G n_massive = Inl Invalid_argument \<longleftrightarrow> unat n < unat n_massive"
    by (cases "unat n < unat n_massive") simp_all
  ultimately show ?thesis using f2 p2 by blast
qed

theorem nbody_builders_invalid_argument_iff_witness:
  "2 \<le> unat (2 :: 32 word)
   \<and> make_nbody_sys_fixed_masses 2 1 [3, 0, 0] = Inl Invalid_argument
   \<and> make_nbody_sys_fixed_masses 2 1 [3] = Inl Invalid_argument
   \<and> (\<exists>sys. make_nbody_sys_fixed_masses 2 1 [3, 0] = Inr sys \<and> length sys = 12)
   \<and> (\<exists>sys. make_nbody_sys_fixed_masses 2 1 [3, 4] = Inr sys \<and> length sys = 12)
   \<and> make_nbody_sys_par_masses 2 1 3 = Inl Invalid_argument
   \<and> (\<exists>sys. make_nbody_sys_par_masses 2 1 2 = Inr sys \<and> length sys = 12)
   \<and> (\<exists>sys. make_nbody_sys_par_masses 2 1 0 = Inr sys \<and> length sys = 12)"
proof -
  have h: "2 \<le> unat (2 :: 32 word)" by simp
  have len: "length (concat (map (body_equations rows) [0..<unat (2 :: 32 word)])) = 12" for rows
    using length_concat_blocks [of "body_equations rows" 6 "unat (2 :: 32 word)"] by simp
  note inst = nbody_builders_invalid_argument_iff [OF h]
  from inst [of 1 "[3, 0, 0]" 3] have a: "make_nbody_sys_fixed_masses 2 1 [3, 0, 0] = Inl Invalid_argument"
    by simp
  from inst [of 1 "[3]" 3] have b: "make_nbody_sys_fixed_masses 2 1 [3] = Inl Invalid_argument"
    and e: "make_nbody_sys_par_masses 2 1 3 = Inl Invalid_argument"
    by simp_all
  from inst [of 1 "[3, 0]" 2] len have c: "\<exists>sys. make_nbody_sys_fixed_masses 2 1 [3, 0] = Inr sys \<and> length sys = 12"
    and f: "\<exists>sys. make_nbody_sys_par_masses 2 1 2 = Inr sys \<and> length sys = 12"
    by simp_all
  from inst [of 1 "[3, 4]" 0] len have d: "\<exists>sys. make_nbody_sys_fixed_masses 2 1 [3, 4] = Inr sys \<and> length sys = 12"
    and g: "\<exists>sys. make_nbody_sys_par_masses 2 1 0 = Inr sys \<and> length sys = 12"
    by simp_all
  from h a b c d e f g show ?thesis by blast
qed




section \<open>Properties of random elliptic states\<close>

lemma d_le_iff_not_less:
  "isfinite a \<Longrightarrow> isfinite b \<Longrightarrow> d_le a b \<longleftrightarrow> \<not> d_less b a"
  by (cases a; cases b) auto

lemma DBL_MAX_less_threshold: "DBL_MAX < overflow_threshold"
  by (simp add: DBL_MAX_def overflow_threshold_def)

lemma DBL_MAX_pos: "0 < DBL_MAX"
  by (simp add: DBL_MAX_def)

lemma range_overflows_finite:
  "range_overflows (Finite l, Finite u) \<longleftrightarrow> overflow_threshold \<le> u - l"
proof (cases "overflow_threshold \<le> u - l")
  case True
  then show ?thesis by (simp add: range_overflows_def round_to_range_def)
next
  case False
  have "\<not> DBL_MAX < max (- DBL_MAX) (min DBL_MAX (u - l))"
    using DBL_MAX_pos by (simp add: max_def min_def)
  with False show ?thesis
    by (simp add: range_overflows_def round_to_range_def del: max_less_iff_conj less_max_iff_disj)
qed

lemma semi_major_axis_range_fits:
  assumes "bound_ok (lb, ub)" and "is_double ub" and "d_less (Finite 0) lb"
  shows "\<not> range_overflows (lb, ub)"
proof -
  from assms(1) obtain l u where lu: "lb = Finite l" "ub = Finite u"
    by (cases lb; cases ub) (auto simp: bound_ok_def)
  with assms have "0 < l" "l < u" "u \<le> DBL_MAX"
    by (auto simp: bound_ok_def)
  then have "u - l < DBL_MAX" by simp
  with DBL_MAX_less_threshold have "\<not> overflow_threshold \<le> u - l" by simp
  with lu show ?thesis by (simp add: range_overflows_finite)
qed

text \<open>
  Claim C7, as amended. For doubles as inputs, \<open>random_elliptic_state\<close> throws
  \<^verbatim>\<open>std::invalid_argument\<close> exactly when \<open>mu\<close> is not finite and positive, or a bound is
  not finite or some \<open>ub > lb\<close> fails, or \<open>a_min \<le> 0\<close>, or the eccentricity range has
  \<open>e_min \<le> 0\<close> or \<open>e_max > 1\<close>, or the inclination range has \<open>inc_min \<le> 0\<close> or
  \<open>inc_max > \<pi>\<close>; it throws \<^verbatim>\<open>std::overflow_error\<close> exactly when none of these holds and
  the width of the omega, Omega or true-anomaly range, as computed, exceeds \<open>DBL_MAX\<close>
  (the width of the semi-major-axis range cannot, once \<open>a_min > 0\<close>); in every other
  case it returns a state. An exception leaves the generator as it was.
\<close>

theorem random_elliptic_state_exceptions:
  assumes "bounds_are_doubles bounds"
  shows "(fst (random_elliptic_state R mu bounds seed rng) = Inl Invalid_argument
            \<longleftrightarrow> \<not> (valid_mu mu \<and> bounds_ok bounds \<and> elements_ok bounds))
    \<and> (fst (random_elliptic_state R mu bounds seed rng) = Inl Overflow_error
            \<longleftrightarrow> valid_mu mu \<and> bounds_ok bounds \<and> elements_ok bounds
                \<and> angle_range_overflows bounds)
    \<and> ((\<exists>s. fst (random_elliptic_state R mu bounds seed rng) = Inr s)
            \<longleftrightarrow> valid_mu mu \<and> bounds_ok bounds \<and> elements_ok bounds
                \<and> \<not> angle_range_overflows bounds)
    \<and> ((\<exists>e. fst (random_elliptic_state R mu bounds seed rng) = Inl e)
            \<longrightarrow> snd (random_elliptic_state R mu bounds seed rng) = rng)"
proof -
  obtain b_a b_e b_inc b_om b_Om b_f
    where b: "bounds = (b_a, b_e, b_inc, b_om, b_Om, b_f)"
    by (cases bounds) auto
  show ?thesis
  proof (cases "valid_mu mu \<and> bounds_ok bounds")
    case False
    then show ?thesis
      by (cases mu) (auto simp: random_elliptic_state_def b valid_mu_def bounds_ok_def)
  next
    case True
    then have mu: "isfinite mu" "\<not> d_le mu (Finite 0)"
      by (cases mu; simp add: valid_mu_def)+
    from True b have ok: "list_all bound_ok [b_a, b_e, b_inc, b_om, b_Om, b_f]"
      by (simp add: bounds_ok_def)
    then have fin: "isfinite (fst b_a)" "isfinite (fst b_e)" "isfinite (snd b_e)"
      "isfinite (fst b_inc)" "isfinite (snd b_inc)"
      by (auto simp: bound_ok_def)
    have cmp: "d_le (fst b_a) (Finite 0) \<longleftrightarrow> \<not> d_less (Finite 0) (fst b_a)"
      "d_le (fst b_e) (Finite 0) \<longleftrightarrow> \<not> d_less (Finite 0) (fst b_e)"
      "d_less (Finite 1) (snd b_e) \<longleftrightarrow> \<not> d_le (snd b_e) (Finite 1)"
      "d_le (fst b_inc) (Finite 0) \<longleftrightarrow> \<not> d_less (Finite 0) (fst b_inc)"
      "d_less (Finite pi_double) (snd b_inc) \<longleftrightarrow> \<not> d_le (snd b_inc) (Finite pi_double)"
      using fin by (simp_all add: d_le_iff_not_less)
    have no_a: "\<not> range_overflows b_a" if "d_less (Finite 0) (fst b_a)"
    proof -
      from ok have "bound_ok (fst b_a, snd b_a)" by simp
      moreover from assms b have "is_double (snd b_a)" by (simp add: bounds_are_doubles_def)
      ultimately show ?thesis using that semi_major_axis_range_fits by fastforce
    qed
    show ?thesis
    proof (cases "elements_ok bounds")
      case False
      with True mu ok cmp no_a show ?thesis
        by (auto simp: random_elliptic_state_def b elements_ok_def)
    next
      case e_ok: True
      with no_a b have "\<not> range_overflows b_a" by (simp add: elements_ok_def)
      with True e_ok mu ok cmp show ?thesis
        by (auto simp: random_elliptic_state_def b elements_ok_def angle_range_overflows_def
            Let_def split: prod.splits)
    qed
  qed
qed

lemma DBL_MAX_ge_2: "2 \<le> DBL_MAX"
  by (simp add: DBL_MAX_def)

lemma full_range_overflows: "range_overflows (Finite (- DBL_MAX), Finite DBL_MAX)"
  by (simp add: range_overflows_finite) (simp add: DBL_MAX_def overflow_threshold_def)

lemma small_range_fits: "u - l \<le> 2 \<Longrightarrow> \<not> range_overflows (Finite l, Finite u)"
  using DBL_MAX_ge_2 DBL_MAX_less_threshold by (simp add: range_overflows_finite)

lemma pi_double_gt_1: "1 < pi_double"
  by (simp add: pi_double_def)

lemmas elliptic_eval = valid_mu_def bounds_ok_def bounds_are_doubles_def elements_ok_def
  angle_range_overflows_def some_range_overflows_def bound_ok_def full_range_overflows
  small_range_fits DBL_MAX_pos less_imp_le [OF DBL_MAX_pos] less_imp_le [OF pi_double_gt_1]

theorem random_elliptic_state_exceptions_witness:
  "bounds_are_doubles plain_bounds \<and> bounds_are_doubles wide_omega_bounds
   \<and> bounds_are_doubles wide_omega_bad_ecc_bounds
   \<and> (\<exists>s. fst (random_elliptic_state counting_rng (Finite 1) plain_bounds 0 0) = Inr s)
   \<and> fst (random_elliptic_state counting_rng (Finite 1) wide_omega_bounds 0 0)
       = Inl Overflow_error
   \<and> fst (random_elliptic_state counting_rng (Finite 1) wide_omega_bad_ecc_bounds 0 0)
       = Inl Invalid_argument
   \<and> fst (random_elliptic_state counting_rng (Finite 0) plain_bounds 0 0)
       = Inl Invalid_argument
   \<and> snd (random_elliptic_state counting_rng (Finite 0) plain_bounds 0 7) = 7"
proof -
  have d: "bounds_are_doubles plain_bounds" "bounds_are_doubles wide_omega_bounds"
    "bounds_are_doubles wide_omega_bad_ecc_bounds"
    using DBL_MAX_ge_2
    by (simp_all add: plain_bounds_def wide_omega_bounds_def wide_omega_bad_ecc_bounds_def
        elliptic_eval)
  have p: "valid_mu (Finite 1)" "\<not> valid_mu (Finite 0)" "bounds_ok plain_bounds"
    "elements_ok plain_bounds" "\<not> angle_range_overflows plain_bounds"
    by (simp_all add: plain_bounds_def elliptic_eval)
  have w: "bounds_ok wide_omega_bounds" "elements_ok wide_omega_bounds"
    "angle_range_overflows wide_omega_bounds"
    by (simp_all add: wide_omega_bounds_def elliptic_eval)
  have e: "\<not> elements_ok wide_omega_bad_ecc_bounds"
    by (simp add: wide_omega_bad_ecc_bounds_def elliptic_eval)
  from random_elliptic_state_exceptions [OF d(1), of counting_rng "Finite 1" 0 0] p
  have 1: "\<exists>s. fst (random_elliptic_state counting_rng (Finite 1) plain_bounds 0 0) = Inr s"
    by simp
  from random_elliptic_state_exceptions [OF d(2), of counting_rng "Finite 1" 0 0] p w
  have 2: "fst (random_elliptic_state counting_rng (Finite 1) wide_omega_bounds 0 0)
       = Inl Overflow_error"
    by simp
  from random_elliptic_state_exceptions [OF d(3), of counting_rng "Finite 1" 0 0] e
  have 3: "fst (random_elliptic_state counting_rng (Finite 1) wide_omega_bad_ecc_bounds 0 0)
       = Inl Invalid_argument"
    by simp
  from random_elliptic_state_exceptions [OF d(1), of counting_rng "Finite 0" 0 7] p
  have 4: "fst (random_elliptic_state counting_rng (Finite 0) plain_bounds 0 7)
       = Inl Invalid_argument"
    and 5: "snd (random_elliptic_state counting_rng (Finite 0) plain_bounds 0 7) = 7"
    by simp_all
  from random_elliptic_state_exceptions [OF d(1), of counting_rng "Finite 0" 0 0] p
  have 6: "fst (random_elliptic_state counting_rng (Finite 0) plain_bounds 0 0)
       = Inl Invalid_argument"
    by simp
  from d 1 2 3 5 6 show ?thesis by blast
qed

text \<open>
  Claim C7 as it was stated fails: at \<open>mu = 1\<close> with the bounds
  \<open>wide_omega_bad_ecc_bounds\<close>, which are finite with \<open>ub > lb\<close>, the width of the omega
  range exceeds \<open>DBL_MAX\<close>, and the function throws \<^verbatim>\<open>std::invalid_argument\<close>, not
  \<^verbatim>\<open>std::overflow_error\<close>: the eccentricity range is checked before the omega range.
\<close>

theorem random_elliptic_state_overflow_counterexample:
  "valid_mu (Finite 1) \<and> bounds_ok wide_omega_bad_ecc_bounds
   \<and> bounds_are_doubles wide_omega_bad_ecc_bounds
   \<and> some_range_overflows wide_omega_bad_ecc_bounds
   \<and> fst (random_elliptic_state counting_rng (Finite 1) wide_omega_bad_ecc_bounds 0 0)
       = Inl Invalid_argument
   \<and> \<not> (fst (random_elliptic_state counting_rng (Finite 1) wide_omega_bad_ecc_bounds 0 0)
           = Inl Overflow_error
         \<longleftrightarrow> some_range_overflows wide_omega_bad_ecc_bounds)"
  using DBL_MAX_ge_2
  by (simp add: wide_omega_bad_ecc_bounds_def random_elliptic_state_def elliptic_eval)

text \<open>
  Claim C10. Two calls of \<open>random_elliptic_state\<close> with the same \<open>mu\<close>, bounds and seed
  give the same result (the same state, or the same exception) whatever the state of
  the thread-local generator before each call, because the generator is seeded from
  \<open>seed\<close> before the first draw; and after a call that returns, the generator is in
  the same state as well.
\<close>

theorem random_elliptic_state_deterministic:
  "fst (random_elliptic_state R mu bounds seed rng1)
     = fst (random_elliptic_state R mu bounds seed rng2)
   \<and> ((\<exists>s. fst (random_elliptic_state R mu bounds seed rng1) = Inr s) \<longrightarrow>
        snd (random_elliptic_state R mu bounds seed rng1)
          = snd (random_elliptic_state R mu bounds seed rng2))"
proof -
  obtain b_a b_e b_inc b_om b_Om b_f
    where b: "bounds = (b_a, b_e, b_inc, b_om, b_Om, b_f)"
    by (cases bounds) auto
  show ?thesis
    by (simp add: random_elliptic_state_def b Let_def split: prod.splits)
qed

theorem random_elliptic_state_deterministic_witness:
  "fst (random_elliptic_state counting_rng (Finite 1) plain_bounds 42 0)
     = fst (random_elliptic_state counting_rng (Finite 1) plain_bounds 42 5)
   \<and> fst (random_elliptic_state counting_rng (Finite 1) plain_bounds 42 0)
       = Inr (elements_to_cartesian 1 (3 / 2) (3 / 10) (11 / 20) (1 / 2) (1 / 2) (1 / 2))
   \<and> snd (random_elliptic_state counting_rng (Finite 1) plain_bounds 42 0) = 6
   \<and> snd (random_elliptic_state counting_rng (Finite 1) plain_bounds 42 5) = 6"
proof -
  have r: "random_elliptic_state counting_rng (Finite 1) plain_bounds 42 g
      = (Inr (elements_to_cartesian 1 (3 / 2) (3 / 10) (11 / 20) (1 / 2) (1 / 2) (1 / 2)), 6)" for g
    by (simp add: random_elliptic_state_def plain_bounds_def counting_rng_def elliptic_eval
        Let_def pi_double_def)
  from random_elliptic_state_deterministic [of counting_rng "Finite 1" plain_bounds 42 0 5] r
  show ?thesis by simp
qed

section \<open>Properties of the jet function\<close>

lemma taylor_decompose_xy: "taylor_decompose xy_system = Inr xy_dec"
  by (simp add: taylor_decompose_def xy_system_def xy_dec_def)

lemma for_each_invariant:
  assumes "for_each body xs s = Inr s'" and "I s"
    and "\<And>x s s'. x \<in> set xs \<Longrightarrow> I s \<Longrightarrow> body x s = Inr s' \<Longrightarrow> I s'"
  shows "I s'"
  using assms
proof (induction xs arbitrary: s)
  case Nil
  then show ?case by simp
next
  case (Cons x xs)
  from Cons.prems(1) obtain s1 where s1: "body x s = Inr s1" "for_each body xs s1 = Inr s'"
    by (auto split: sum.splits)
  have "I s1" using Cons.prems(2) s1(1) by (rule Cons.prems(3) [rotated]) simp
  with s1(2) show ?case
  proof (rule Cons.IH)
    fix y t t'
    assume "y \<in> set xs" "I t" "body y t = Inr t'"
    then show "I t'" by (intro Cons.prems(3) [of y t t']) simp_all
  qed
qed

lemma cell_beyond_state:
  assumes "S \<le> n" and "k = 0 \<longrightarrow> S \<le> r"
  shows "S * B \<le> cell n B k r l"
proof (cases "k = 0")
  case True
  with assms have "S \<le> r" by simp
  then have "S * B \<le> r * B" by (rule mult_le_mono1)
  also have "\<dots> \<le> (0 * n + r) * B + l" by simp
  finally show ?thesis unfolding cell_def True .
next
  case False
  then have "n \<le> k * n" by simp
  with assms(1) have "S \<le> k * n + r" by linarith
  then have "S * B \<le> (k * n + r) * B" by (rule mult_le_mono1)
  also have "\<dots> \<le> (k * n + r) * B + l" by simp
  finally show ?thesis unfolding cell_def .
qed

lemma jet_cell_frame:
  assumes "jet_cell D S B pars k r l slab = Inr slab'" and "S \<le> length D"
    and "k = 0 \<longrightarrow> S \<le> r"
  shows "length slab' = length slab \<and> (\<forall>i < S * B. slab' ! i = slab ! i)"
proof -
  from assms(1) obtain v where "slab' = slab[cell (length D) B k r l := v]"
    by (auto simp: jet_cell_def split: sum.splits)
  moreover from assms(2,3) have "S * B \<le> cell (length D) B k r l"
    by (rule cell_beyond_state)
  ultimately show ?thesis by simp
qed

text \<open>
  Claim C5. When the jet function of a decomposition \<open>D\<close> of a system of dimension
  \<open>S \<le> |D|\<close> returns, for any order \<open>p\<close> and any batch width \<open>B\<close>, the slab has kept its
  length and its first \<open>S * B\<close> entries, the caller's state of order \<open>0\<close>, are the values
  that were there before the call.
\<close>

theorem jet_keeps_order_zero_state:
  assumes "jet D S pars p B slab = Inr slab'" and "S \<le> length D"
  shows "length slab' = length slab \<and> (\<forall>i < S * B. slab' ! i = slab ! i)"
proof -
  let ?I = "\<lambda>s. length s = length slab \<and> (\<forall>i < S * B. s ! i = slab ! i)"
  from assms(1) have run: "for_each (\<lambda>k. for_each (\<lambda>r. for_each (jet_cell D S B pars k r) [0..<B])
                      (jet_rows D S k)) [0..<Suc p] slab = Inr slab'"
    by (simp add: jet_def split: if_splits)
  have cell_step: "?I s'" if "?I s" "jet_cell D S B pars k r l s = Inr s'" "k = 0 \<longrightarrow> S \<le> r"
    for k r l s s'
    using jet_cell_frame [OF that(2) assms(2) that(3)] that(1) by simp
  have row_step: "?I s'"
    if "?I s" "for_each (jet_cell D S B pars k r) [0..<B] s = Inr s'" "k = 0 \<longrightarrow> S \<le> r"
    for k r s s'
    using that(2,1)
  proof (rule for_each_invariant)
    fix l t t'
    assume "?I t" "jet_cell D S B pars k r l t = Inr t'"
    then show "?I t'" using that(3) by (rule cell_step)
  qed
  have order_step: "?I s'"
    if "?I s" "for_each (\<lambda>r. for_each (jet_cell D S B pars k r) [0..<B]) (jet_rows D S k) s = Inr s'"
    for k s s'
    using that(2,1)
  proof (rule for_each_invariant)
    fix r t t'
    assume r: "r \<in> set (jet_rows D S k)" and "?I t"
      and "for_each (jet_cell D S B pars k r) [0..<B] t = Inr t'"
    moreover from r have "k = 0 \<longrightarrow> S \<le> r" by (auto simp: jet_rows_def)
    ultimately show "?I t'" by (intro row_step [of t k r t']) simp_all
  qed
  from run have "?I slab'"
  proof (rule for_each_invariant)
    show "?I slab" by simp
  next
    fix k t t'
    assume "?I t"
      and "for_each (\<lambda>r. for_each (jet_cell D S B pars k r) [0..<B]) (jet_rows D S k) t = Inr t'"
    then show "?I t'" by (rule order_step)
  qed
  then show ?thesis .
qed

text \<open>
  The first system of the tests, \<open>x' = 2 * 3\<close>, \<open>y' = x + y\<close>, at order \<open>1\<close> and batch
  width \<open>1\<close>, from the state \<open>(2, 3)\<close>.
\<close>

theorem jet_keeps_order_zero_state_witness:
  "taylor_decompose [(''x'', Bin Mul (Num 2) (Num 3)), (''y'', e_add (Var ''x'') (Var ''y''))]
     = Inr [State_id, State_id, Assign Mul (O_num 2) (O_num 3), Assign Add (O_ref 0) (O_ref 1),
            Deriv_of (O_ref 2), Deriv_of (O_ref 3)]
   \<and> jet [State_id, State_id, Assign Mul (O_num 2) (O_num 3), Assign Add (O_ref 0) (O_ref 1),
          Deriv_of (O_ref 2), Deriv_of (O_ref 3)] 2 [] 1 1 [2, 3, 0, 0, 0, 0, 0, 0, 0, 0, 0, 0]
       = Inr [2, 3, 6, 5, 6, 5, 6, 5, 0, 11, 0, 11]
   \<and> (2 :: nat) \<le> length [State_id, State_id, Assign Mul (O_num 2) (O_num 3),
          Assign Add (O_ref 0) (O_ref 1), Deriv_of (O_ref 2), Deriv_of (O_ref 3)]
   \<and> [2, 3, 6, 5, 6, 5, 6, 5, 0, 11, 0, 11 :: real] ! 0 = 2
   \<and> [2, 3, 6, 5, 6, 5, 6, 5, 0, 11, 0, 11 :: real] ! 1 = 3"
proof -
  let ?D = "[State_id, State_id, Assign Mul (O_num 2) (O_num 3), Assign Add (O_ref 0) (O_ref 1),
            Deriv_of (O_ref 2), Deriv_of (O_ref 3)]"
  have dec: "taylor_decompose [(''x'', Bin Mul (Num 2) (Num 3)), (''y'', e_add (Var ''x'') (Var ''y''))]
     = Inr ?D"
    by (simp add: taylor_decompose_def)
  have run: "jet ?D 2 [] 1 1 [2, 3, 0, 0, 0, 0, 0, 0, 0, 0, 0, 0]
       = Inr [2, 3, 6, 5, 6, 5, 6, 5, 0, 11, 0, 11]"
    by (simp add: jet_def jet_rows_def jet_cell_def entry_coeff_def cell_def upt_rec Let_def)
  have len: "(2 :: nat) \<le> length ?D" by simp
  from jet_keeps_order_zero_state [OF run len] dec run show ?thesis by simp
qed

lemma cell_inj:
  assumes "r < n" "r' < n" "l < B" "l' < B" and "cell n B k r l = cell n B k' r' l'"
  shows "k = k' \<and> r = r' \<and> l = l'"
proof -
  from assms(5) have eq: "(k * n + r) * B + l = (k' * n + r') * B + l'"
    by (simp add: cell_def)
  from arg_cong [OF eq, of "\<lambda>x. x mod B"] assms(3,4) have l: "l = l'" by simp
  from arg_cong [OF eq, of "\<lambda>x. x div B"] assms(3,4) have e2: "k * n + r = k' * n + r'" by simp
  from arg_cong [OF e2, of "\<lambda>x. x mod n"] assms(1,2) have r: "r = r'" by simp
  from arg_cong [OF e2, of "\<lambda>x. x div n"] assms(1,2) have "k = k'" by simp
  with l r show ?thesis by simp
qed

lemma cell_in_slab:
  assumes "k \<le> p" "r < n" "l < B"
  shows "cell n B k r l < n * (p + 1) * B"
proof -
  have "k * n + r < (p + 1) * n"
  proof -
    from assms(1) have "k * n \<le> p * n" by (rule mult_le_mono1)
    with assms(2) have "k * n + r < p * n + n" by linarith
    then show ?thesis by (simp add: algebra_simps)
  qed
  then have "Suc (k * n + r) \<le> (p + 1) * n" by simp
  then have "Suc (k * n + r) * B \<le> (p + 1) * n * B" by (rule mult_le_mono1)
  with assms(3) show ?thesis by (simp add: cell_def mult.commute)
qed

lemma xy_coeff_rows:
  "xy_coeff x0 y0 0 0 = x0"
  "xy_coeff x0 y0 0 1 = y0"
  "0 < k \<Longrightarrow> xy_coeff x0 y0 k 0 = xy_coeff x0 y0 (k - 1) 3 / real k"
  "0 < k \<Longrightarrow> xy_coeff x0 y0 k 1 = xy_coeff x0 y0 (k - 1) 4 / real k"
  "xy_coeff x0 y0 k 2 = (\<Sum>j\<leftarrow>[0..<Suc k]. xy_coeff x0 y0 j 0 * xy_coeff x0 y0 (k - j) 1)"
  "xy_coeff x0 y0 k 3 = xy_coeff x0 y0 k 2"
  "xy_coeff x0 y0 k 4 = xy_coeff x0 y0 k 2"
  by (subst xy_coeff.simps, simp)+

lemma length_xy_dec: "length xy_dec = 5"
  by (simp add: xy_dec_def)

lemma xy_dec_nth:
  "xy_dec ! 0 = State_id" "xy_dec ! 1 = State_id" "xy_dec ! 2 = Assign Mul (O_ref 0) (O_ref 1)"
  "xy_dec ! 3 = Deriv_of (O_ref 2)" "xy_dec ! 4 = Deriv_of (O_ref 2)"
  by (simp_all add: xy_dec_def)

lemma xy_entry_coeff:
  assumes inv: "xy_inv B slab0 k r l slab" and r: "r < 5" and l: "l < B"
    and k0: "k = 0 \<longrightarrow> 2 \<le> r"
  shows "entry_coeff xy_dec 2 B pars slab k r l
           = Inr (xy_coeff (slab0 ! cell 5 B 0 0 l) (slab0 ! cell 5 B 0 1 l) k r)"
proof -
  let ?E = "xy_coeff (slab0 ! cell 5 B 0 0 l) (slab0 ! cell 5 B 0 1 l)"
  have rd: "slab ! cell 5 B k' r' l = ?E k' r'" if "r' < 5" "xy_done k r l k' r' l" for k' r'
    using inv that l by (simp add: xy_inv_def)
  from r consider "r = 0" | "r = 1" | "r = 2" | "r = 3" | "r = 4" by linarith
  then show ?thesis
  proof cases
    case 1
    with k0 have k: "0 < k" by simp
    then have "slab ! cell 5 B (k - 1) 3 l = ?E (k - 1) 3"
      by (intro rd) (simp_all add: xy_done_def)
    with 1 k show ?thesis
      by (simp add: entry_coeff_def xy_dec_nth length_xy_dec xy_coeff_rows(3))
  next
    case 2
    with k0 have k: "0 < k" by simp
    then have "slab ! cell 5 B (k - 1) 4 l = ?E (k - 1) 4"
      by (intro rd) (simp_all add: xy_done_def)
    with 2 k show ?thesis
      by (simp add: entry_coeff_def xy_dec_nth length_xy_dec xy_coeff_rows(4) del: One_nat_def)
  next
    case 3
    have "slab ! cell 5 B j 0 l = ?E j 0 \<and> slab ! cell 5 B (k - j) 1 l = ?E (k - j) 1"
      if "j \<in> set [0..<Suc k]" for j
    proof -
      from that have "j \<le> k" by auto
      with 3 have "xy_done k r l j 0 l" "xy_done k r l (k - j) 1 l"
        by (auto simp: xy_done_def)
      then show ?thesis by (simp add: rd)
    qed
    then have "map (\<lambda>j. slab ! cell 5 B j 0 l * slab ! cell 5 B (k - j) 1 l) [0..<Suc k]
                 = map (\<lambda>j. ?E j 0 * ?E (k - j) 1) [0..<Suc k]"
      by (intro map_cong) simp_all
    then have "(\<Sum>j\<leftarrow>[0..<Suc k]. slab ! cell 5 B j 0 l * slab ! cell 5 B (k - j) 1 l)
                 = ?E k 2"
      by (simp only: xy_coeff_rows(5))
    with 3 show ?thesis
      by (simp add: entry_coeff_def xy_dec_nth length_xy_dec del: upt_Suc)
  next
    case 4
    then have "slab ! cell 5 B k 2 l = ?E k 2"
      by (intro rd) (simp_all add: xy_done_def)
    with 4 show ?thesis
      by (simp add: entry_coeff_def xy_dec_nth length_xy_dec xy_coeff_rows(6))
  next
    case 5
    then have "slab ! cell 5 B k 2 l = ?E k 2"
      by (intro rd) (simp_all add: xy_done_def)
    with 5 show ?thesis
      by (simp add: entry_coeff_def xy_dec_nth length_xy_dec xy_coeff_rows(7))
  qed
qed

lemma xy_cell_step:
  assumes inv: "xy_inv B slab0 k r l slab" and k: "k \<le> p" and r: "r < 5" and l: "l < B"
    and k0: "k = 0 \<longrightarrow> 2 \<le> r" and len: "5 * (p + 1) * B \<le> length slab0"
  shows "\<exists>slab'. jet_cell xy_dec 2 B pars k r l slab = Inr slab'
           \<and> xy_inv B slab0 k r (Suc l) slab'"
proof -
  let ?E = "\<lambda>l. xy_coeff (slab0 ! cell 5 B 0 0 l) (slab0 ! cell 5 B 0 1 l)"
  let ?slab' = "slab[cell 5 B k r l := ?E l k r]"
  from inv have ls: "length slab = length slab0" by (simp add: xy_inv_def)
  have run: "jet_cell xy_dec 2 B pars k r l slab = Inr ?slab'"
    using xy_entry_coeff [OF inv r l k0, of pars] by (simp add: jet_cell_def length_xy_dec)
  from cell_in_slab [OF k r l] len ls have inside: "cell 5 B k r l < length slab" by simp
  have "?slab' ! cell 5 B k' r' l' = ?E l' k' r'"
    if "r' < 5" "l' < B" "xy_done k r (Suc l) k' r' l'" for k' r' l'
  proof (cases "k' = k \<and> r' = r \<and> l' = l")
    case True
    with inside show ?thesis by simp
  next
    case False
    with cell_inj [OF r that(1) l that(2), of k k'] have ne: "cell 5 B k r l \<noteq> cell 5 B k' r' l'"
      by auto
    from False that(3) have "xy_done k r l k' r' l'"
      by (auto simp: xy_done_def)
    with inv that(1,2) have "slab ! cell 5 B k' r' l' = ?E l' k' r'"
      by (simp add: xy_inv_def)
    with ne show ?thesis by simp
  qed
  with ls have "xy_inv B slab0 k r (Suc l) ?slab'" by (simp add: xy_inv_def)
  with run show ?thesis by blast
qed

lemma xy_row_step:
  assumes inv: "xy_inv B slab0 k r 0 slab" and k: "k \<le> p" and r: "r < 5"
    and k0: "k = 0 \<longrightarrow> 2 \<le> r" and len: "5 * (p + 1) * B \<le> length slab0"
  shows "\<exists>slab'. for_each (jet_cell xy_dec 2 B pars k r) [0..<B] slab = Inr slab'
           \<and> xy_inv B slab0 k (Suc r) 0 slab'"
proof -
  have "\<exists>slab'. for_each (jet_cell xy_dec 2 B pars k r) [0..<B] slab = Inr slab'
           \<and> xy_inv B slab0 k r B slab'"
  proof (rule for_each_upt [where I = "xy_inv B slab0 k r"])
    show "xy_inv B slab0 k r 0 slab" by (rule inv)
    fix l s
    assume "l < B" "xy_inv B slab0 k r l s"
    then show "\<exists>s'. jet_cell xy_dec 2 B pars k r l s = Inr s' \<and> xy_inv B slab0 k r (Suc l) s'"
      using k r k0 len by (intro xy_cell_step [where p = p]) simp_all
  qed simp
  then obtain slab' where run: "for_each (jet_cell xy_dec 2 B pars k r) [0..<B] slab = Inr slab'"
    and end_inv: "xy_inv B slab0 k r B slab'" by blast
  have "xy_done k r B k' r' l'" if "l' < B" "xy_done k (Suc r) 0 k' r' l'" for k' r' l'
    using that by (auto simp: xy_done_def)
  with end_inv have "xy_inv B slab0 k (Suc r) 0 slab'"
    by (simp add: xy_inv_def)
  with run show ?thesis by blast
qed

lemma xy_order_step:
  assumes inv: "xy_inv B slab0 k 0 0 slab" and k: "k \<le> p"
    and len: "5 * (p + 1) * B \<le> length slab0"
  shows "\<exists>slab'. for_each (\<lambda>r. for_each (jet_cell xy_dec 2 B pars k r) [0..<B])
                    (jet_rows xy_dec 2 k) slab = Inr slab'
           \<and> xy_inv B slab0 (Suc k) 0 0 slab'"
proof -
  let ?a = "if k = 0 then 2 else 0 :: nat"
  have rows: "jet_rows xy_dec 2 k = [?a..<5]"
    by (simp add: jet_rows_def length_xy_dec)
  have start: "xy_inv B slab0 k ?a 0 slab"
    using inv by (auto simp: xy_inv_def xy_done_def)
  have "\<exists>slab'. for_each (\<lambda>r. for_each (jet_cell xy_dec 2 B pars k r) [0..<B]) [?a..<5] slab
            = Inr slab' \<and> xy_inv B slab0 k 5 0 slab'"
  proof (rule for_each_upt [where I = "\<lambda>r. xy_inv B slab0 k r 0"])
    show "?a \<le> 5" by simp
    show "xy_inv B slab0 k ?a 0 slab" by (rule start)
    fix r s
    assume "?a \<le> r" "r < 5" "xy_inv B slab0 k r 0 s"
    then show "\<exists>s'. for_each (jet_cell xy_dec 2 B pars k r) [0..<B] s = Inr s'
                 \<and> xy_inv B slab0 k (Suc r) 0 s'"
      using k len by (intro xy_row_step [where p = p]) (simp_all split: if_splits)
  qed
  then obtain slab' where run: "for_each (\<lambda>r. for_each (jet_cell xy_dec 2 B pars k r) [0..<B])
      [?a..<5] slab = Inr slab'" and end_inv: "xy_inv B slab0 k 5 0 slab'" by blast
  have "xy_done k 5 0 k' r' l'" if "r' < 5" "xy_done (Suc k) 0 0 k' r' l'" for k' r' l'
    using that by (auto simp: xy_done_def)
  with end_inv have "xy_inv B slab0 (Suc k) 0 0 slab'"
    by (simp add: xy_inv_def)
  with run rows show ?thesis by auto
qed

lemma xy_jet_coefficients:
  assumes len: "5 * (p + 1) * B \<le> length slab"
  shows "\<exists>slab'. jet xy_dec 2 pars p B slab = Inr slab' \<and> length slab' = length slab
    \<and> (\<forall>k r l. k \<le> p \<and> r < 5 \<and> l < B \<longrightarrow>
          slab' ! cell 5 B k r l
            = xy_coeff (slab ! cell 5 B 0 0 l) (slab ! cell 5 B 0 1 l) k r)"
proof -
  have "\<exists>slab'. for_each (\<lambda>k. for_each (\<lambda>r. for_each (jet_cell xy_dec 2 B pars k r) [0..<B])
                      (jet_rows xy_dec 2 k)) [0..<Suc p] slab = Inr slab'
          \<and> xy_inv B slab (Suc p) 0 0 slab'"
  proof (rule for_each_upt [where I = "\<lambda>k. xy_inv B slab k 0 0"])
    show "xy_inv B slab 0 0 0 slab"
    proof -
      have "slab ! cell 5 B k' r' l'
              = xy_coeff (slab ! cell 5 B 0 0 l') (slab ! cell 5 B 0 1 l') k' r'"
        if "xy_done 0 0 0 k' r' l'" for k' r' l'
      proof -
        from that have "k' = 0" and "r' = 0 \<or> r' = 1" by (auto simp: xy_done_def)
        then show ?thesis using xy_coeff_rows(1,2) by auto
      qed
      then show ?thesis by (simp add: xy_inv_def)
    qed
    fix k s
    assume "k < Suc p" "xy_inv B slab k 0 0 s"
    then show "\<exists>s'. for_each (\<lambda>r. for_each (jet_cell xy_dec 2 B pars k r) [0..<B])
                     (jet_rows xy_dec 2 k) s = Inr s' \<and> xy_inv B slab (Suc k) 0 0 s'"
      using len by (intro xy_order_step [where p = p]) simp_all
  qed simp
  then obtain slab' where run: "for_each (\<lambda>k. for_each (\<lambda>r. for_each (jet_cell xy_dec 2 B pars k r)
      [0..<B]) (jet_rows xy_dec 2 k)) [0..<Suc p] slab = Inr slab'"
    and inv: "xy_inv B slab (Suc p) 0 0 slab'" by blast
  from len run have "jet xy_dec 2 pars p B slab = Inr slab'"
    by (simp add: jet_def length_xy_dec)
  moreover from inv have "length slab' = length slab" by (simp add: xy_inv_def)
  moreover have "slab' ! cell 5 B k r l
            = xy_coeff (slab ! cell 5 B 0 0 l) (slab ! cell 5 B 0 1 l) k r"
    if "k \<le> p" "r < 5" "l < B" for k r l
  proof -
    from that(1) have "xy_done (Suc p) 0 0 k r l" by (simp add: xy_done_def)
    with inv that(2,3) show ?thesis by (simp add: xy_inv_def)
  qed
  ultimately show ?thesis by blast
qed

text \<open>
  Claim C3. For the system \<open>x' = x * y\<close>, \<open>y' = y * x\<close>, whose decomposition is \<open>xy_dec\<close>,
  the jet function of order \<open>p\<close> and batch width \<open>B\<close> returns on every slab that is long
  enough, and in the slab it returns the coefficient of order \<open>k\<close> of each of the two
  state variables is, in every lane \<open>l < B\<close> and at every order \<open>1 \<le> k \<le> p\<close>, the sum of
  the products \<open>x\<^sup>(\<^sup>j\<^sup>) * y\<^sup>(\<^sup>k\<^sup>-\<^sup>1\<^sup>-\<^sup>j\<^sup>)\<close> for \<open>j = 0 \<dots> k - 1\<close>, divided by \<open>k\<close>.
\<close>

theorem xy_jet_product_recurrence:
  assumes len: "length xy_dec * (p + 1) * B \<le> length slab"
  shows "taylor_decompose xy_system = Inr xy_dec
    \<and> (\<exists>slab'. jet xy_dec (length xy_system) pars p B slab = Inr slab'
          \<and> (\<forall>k l. 1 \<le> k \<and> k \<le> p \<and> l < B \<longrightarrow>
                slab' ! cell 5 B k 0 l
                  = (\<Sum>j\<leftarrow>[0..<k]. slab' ! cell 5 B j 0 l * slab' ! cell 5 B (k - 1 - j) 1 l)
                      / real k
              \<and> slab' ! cell 5 B k 1 l
                  = (\<Sum>j\<leftarrow>[0..<k]. slab' ! cell 5 B j 0 l * slab' ! cell 5 B (k - 1 - j) 1 l)
                      / real k))"
proof -
  from len have "5 * (p + 1) * B \<le> length slab" by (simp add: length_xy_dec)
  from xy_jet_coefficients [OF this, of pars] obtain slab'
    where run: "jet xy_dec 2 pars p B slab = Inr slab'"
      and co: "\<And>k r l. k \<le> p \<Longrightarrow> r < 5 \<Longrightarrow> l < B \<Longrightarrow> slab' ! cell 5 B k r l
                 = xy_coeff (slab ! cell 5 B 0 0 l) (slab ! cell 5 B 0 1 l) k r"
    by blast
  have rec: "slab' ! cell 5 B k 0 l
               = (\<Sum>j\<leftarrow>[0..<k]. slab' ! cell 5 B j 0 l * slab' ! cell 5 B (k - 1 - j) 1 l) / real k
           \<and> slab' ! cell 5 B k 1 l
               = (\<Sum>j\<leftarrow>[0..<k]. slab' ! cell 5 B j 0 l * slab' ! cell 5 B (k - 1 - j) 1 l) / real k"
    if k: "1 \<le> k" "k \<le> p" and l: "l < B" for k l
  proof -
    let ?E = "xy_coeff (slab ! cell 5 B 0 0 l) (slab ! cell 5 B 0 1 l)"
    from k obtain m where m: "k = Suc m" by (cases k) simp_all
    have "slab' ! cell 5 B j 0 l * slab' ! cell 5 B (m - j) 1 l = ?E j 0 * ?E (m - j) 1"
      if "j \<in> set [0..<Suc m]" for j
    proof -
      from that k(2) m have "j \<le> p" "m - j \<le> p" by auto
      with l show ?thesis by (simp add: co)
    qed
    then have "map (\<lambda>j. slab' ! cell 5 B j 0 l * slab' ! cell 5 B (m - j) 1 l) [0..<Suc m]
                 = map (\<lambda>j. ?E j 0 * ?E (m - j) 1) [0..<Suc m]"
      by (intro map_cong) simp_all
    then have sum: "(\<Sum>j\<leftarrow>[0..<Suc m]. slab' ! cell 5 B j 0 l * slab' ! cell 5 B (m - j) 1 l)
                 = ?E m 2"
      by (simp only: xy_coeff_rows(5))
    from m have km: "0 < k" "k - 1 = m" by simp_all
    have "?E k 0 = ?E m 2 / real k" "?E k 1 = ?E m 2 / real k"
      by (simp_all only: xy_coeff_rows(3) [OF km(1)] xy_coeff_rows(4) [OF km(1)] km(2)
          xy_coeff_rows(6,7))
    moreover from k(2) l have "slab' ! cell 5 B k 0 l = ?E k 0" "slab' ! cell 5 B k 1 l = ?E k 1"
      by (simp_all add: co)
    ultimately show ?thesis using sum m by (simp del: upt_Suc)
  qed
  have "length xy_system = 2" by (simp add: xy_system_def)
  with run rec taylor_decompose_xy show ?thesis by auto
qed

text \<open>
  Order \<open>2\<close> in two lanes, from the states \<open>(2, 3)\<close> and \<open>(1, -4)\<close>: the coefficients of order
  \<open>2\<close> are \<open>15 = (2 * 6 + 6 * 3) / 2\<close> and \<open>6 = (1 * (-4) + (-4) * (-4)) / 2\<close>.
\<close>

theorem xy_jet_product_recurrence_witness:
  "length xy_dec * (2 + 1) * 2 \<le> length (2 # 1 # 3 # -4 # replicate 26 (0 :: real))
   \<and> jet xy_dec (length xy_system) [] 2 2 (2 # 1 # 3 # -4 # replicate 26 0)
       = Inr [2, 1, 3, -4, 6, -4, 6, -4, 6, -4,
              6, -4, 6, -4, 30, 12, 30, 12, 30, 12,
              15, 6, 15, 6, 111, -2, 111, -2, 111, -2]
   \<and> [2, 1, 3, -4, 6, -4, 6, -4, 6, -4,
       6, -4, 6, -4, 30, 12, 30, 12, 30, 12,
       15, 6, 15, 6, 111, -2, 111, -2, 111, -2 :: real] ! cell 5 2 2 0 1 = (1 * (-4) + (-4) * (-4)) / 2
   \<and> [2, 1, 3, -4, 6, -4, 6, -4, 6, -4,
       6, -4, 6, -4, 30, 12, 30, 12, 30, 12,
       15, 6, 15, 6, 111, -2, 111, -2, 111, -2 :: real] ! cell 5 2 2 1 0 = (2 * 6 + 6 * 3) / 2"
proof -
  let ?slab = "2 # 1 # 3 # -4 # replicate 26 (0 :: real)"
  let ?res = "[2, 1, 3, -4, 6, -4, 6, -4, 6, -4,
       6, -4, 6, -4, 30, 12, 30, 12, 30, 12,
       15, 6, 15, 6, 111, -2, 111, -2, 111, -2 :: real]"
  have len: "length xy_dec * (2 + 1) * 2 \<le> length ?slab"
    by (simp add: xy_dec_def)
  have run: "jet xy_dec (length xy_system) [] 2 2 ?slab = Inr ?res"
    by (simp add: jet_def jet_rows_def jet_cell_def entry_coeff_def cell_def upt_rec Let_def
        xy_dec_def xy_system_def numeral_eq_Suc)
  from xy_jet_product_recurrence [OF len, of "[]"] run
  have "\<forall>k l. 1 \<le> k \<and> k \<le> 2 \<and> l < 2 \<longrightarrow>
          ?res ! cell 5 2 k 0 l
            = (\<Sum>j\<leftarrow>[0..<k]. ?res ! cell 5 2 j 0 l * ?res ! cell 5 2 (k - 1 - j) 1 l) / real k
        \<and> ?res ! cell 5 2 k 1 l
            = (\<Sum>j\<leftarrow>[0..<k]. ?res ! cell 5 2 j 0 l * ?res ! cell 5 2 (k - 1 - j) 1 l) / real k"
    by simp
  from this [rule_format, of 2 1] this [rule_format, of 2 0]
  have "?res ! cell 5 2 2 0 1 = (1 * (-4) + (-4) * (-4)) / 2"
    and "?res ! cell 5 2 2 1 0 = (2 * 6 + 6 * 3) / 2"
    by (simp_all add: cell_def upt_rec)
  with len run show ?thesis by simp
qed

section \<open>The value of a system with parametric masses\<close>






























end
